theory Spec2Isabelle
  imports Complex_Main "HOL-Library.AList"
begin

section \<open>Python values, exceptions and the log\<close>

text \<open>
  The indexer works on the tree that \<open>xmltodict.parse\<close> returns and on the flat
  dictionary it builds from it. Both hold the same kind of values: \<open>None\<close>, strings,
  floats, lists, tuples and (ordered) dictionaries. A dictionary of the input tree is
  an association list, since the code iterates over it in order; the keys of a
  well-formed one are distinct.
\<close>

datatype pyval =
    PNone
  | PStr string
  | PFloat real
  | PList "pyval list"
  | PTuple "pyval list"
  | PDict "(string \<times> pyval) list"

type_synonym pydict = "(string \<times> pyval) list"

text \<open>The exceptions the modelled code can raise.\<close>

datatype exn =
    KeyError string
  | TypeError
  | AttributeError
  | ValueError
  | IndexError
  | UnboundLocalError
  | Warning string
  | Exception string
  | OtherError string

text \<open>
  A call of \<open>logger.info\<close>, \<open>logger.warning\<close> or \<open>logger.error\<close> appends its level and
  its message template to the log; the arguments of the template are not recorded.
\<close>

datatype level = INFO | WARNING | ERROR

type_synonym log = "(level \<times> string) list"

text \<open>Sequencing of computations that may raise.\<close>

definition andthen :: "exn + 'a \<Rightarrow> ('a \<Rightarrow> exn + 'b) \<Rightarrow> exn + 'b" where
  "andthen m f = (case m of Inl e \<Rightarrow> Inl e | Inr x \<Rightarrow> f x)"

text \<open>\<open>k in d\<close> and \<open>d[k]\<close> on a dictionary of the input tree.\<close>

definition has_key :: "pydict \<Rightarrow> string \<Rightarrow> bool" where
  "has_key d k = (map_of d k \<noteq> None)"

definition getitem :: "pydict \<Rightarrow> string \<Rightarrow> exn + pyval" where
  "getitem d k = (case map_of d k of None \<Rightarrow> Inl (KeyError k) | Some v \<Rightarrow> Inr v)"

text \<open>\<open>s in t\<close> on two strings: \<open>s\<close> occurs in \<open>t\<close> as a contiguous piece.\<close>

fun is_substr :: "string \<Rightarrow> string \<Rightarrow> bool" where
  "is_substr s [] = (s = [])"
| "is_substr s (c # cs) = (take (length s) (c # cs) = s \<or> is_substr s cs)"

text \<open>
  \<open>k in v\<close> for a string \<open>k\<close> and any value \<open>v\<close>: key membership on a dictionary,
  substring on a string, element membership on a list or tuple, \<open>TypeError\<close> on \<open>None\<close>
  and on a float.
\<close>

fun py_in :: "string \<Rightarrow> pyval \<Rightarrow> exn + bool" where
  "py_in k (PDict d) = Inr (has_key d k)"
| "py_in k (PStr s) = Inr (is_substr k s)"
| "py_in k (PList xs) = Inr (PStr k \<in> set xs)"
| "py_in k (PTuple xs) = Inr (PStr k \<in> set xs)"
| "py_in k PNone = Inl TypeError"
| "py_in k (PFloat x) = Inl TypeError"

text \<open>
  \<open>v[k]\<close> for a string key \<open>k\<close>: a lookup on a dictionary, \<open>TypeError\<close> on every other
  value (a string, list or tuple takes integer indices only).
\<close>

fun py_getitem :: "pyval \<Rightarrow> string \<Rightarrow> exn + pyval" where
  "py_getitem (PDict d) k = getitem d k"
| "py_getitem v k = Inl TypeError"

text \<open>The truth value of a Python value in a condition.\<close>

fun truthy :: "pyval \<Rightarrow> bool" where
  "truthy PNone = False"
| "truthy (PStr s) = (s \<noteq> [])"
| "truthy (PFloat x) = (x \<noteq> 0)"
| "truthy (PList xs) = (xs \<noteq> [])"
| "truthy (PTuple xs) = (xs \<noteq> [])"
| "truthy (PDict d) = (d \<noteq> [])"

section \<open>\<open>MMD4SolR.check_mmd\<close>: presence of the required elements\<close>

definition mmd_requirements :: "string list" where
  "mmd_requirements =
    [''mmd:metadata_version'', ''mmd:metadata_identifier'', ''mmd:title'',
     ''mmd:abstract'', ''mmd:metadata_status'', ''mmd:dataset_production_status'',
     ''mmd:collection'', ''mmd:last_metadata_update'', ''mmd:iso_topic_category'',
     ''mmd:keywords'']"

text \<open>
  One round of the loop over \<open>mmd_requirements.keys()\<close>. The state is the log and
  \<open>self.mydoc['mmd:mmd']\<close>. The inner test repeats the outer one, as in the source, so
  its \<open>else\<close> branch is only reached when the outer test has succeeded.
\<close>

definition check_requirement :: "string \<Rightarrow> log \<times> pydict \<Rightarrow> log \<times> pydict" where
  "check_requirement requirement = (\<lambda>(lg, mmd).
     if has_key mmd requirement then
       (let lg1 = lg @ [(INFO, ''Checking for: %s'')] in
        if has_key mmd requirement then
          (if map_of mmd requirement \<noteq> Some PNone then
             (lg1 @ [(INFO, ''%s is present and non empty'')], mmd)
           else
             (lg1 @ [(WARNING, ''Required element %s is missing, setting it to unknown'')],
              AList.update requirement (PStr ''Unknown'') mmd))
        else
          (lg1 @ [(WARNING, ''Required element %s is missing, setting it to unknown.'')],
           AList.update requirement (PStr ''Unknown'') mmd))
     else (lg, mmd))"

definition check_mmd_requirements :: "log \<times> pydict \<Rightarrow> log \<times> pydict" where
  "check_mmd_requirements = fold check_requirement mmd_requirements"

section \<open>\<open>MMD4SolR.tosolr\<close>\<close>

text \<open>
  \<open>tosolr\<close> builds \<open>mydict\<close> field by field; each block of the method is a function
  here, from the record \<open>self.mydoc['mmd:mmd']\<close> and the dictionary built so far to the
  dictionary after the block, or to the exception the block raises.
\<close>

type_synonym mydict = "string \<rightharpoonup> pyval"

subsection \<open>Title\<close>

text \<open>
  One language alternative of a repeated title: an element with an \<open>@xml:lang\<close> or
  \<open>@lang\<close> attribute equal to \<open>en\<close> sets the title to its \<open>#text\<close>.
\<close>

definition title_alternative :: "pyval \<Rightarrow> mydict \<Rightarrow> exn + mydict" where
  "title_alternative e md =
     andthen (py_in ''@xml:lang'' e) (\<lambda>b.
       if b then
         andthen (py_getitem e ''@xml:lang'') (\<lambda>l.
           if l = PStr ''en'' then
             andthen (py_getitem e ''#text'') (\<lambda>t. Inr (md(''title'' \<mapsto> t)))
           else Inr md)
       else
         andthen (py_in ''@lang'' e) (\<lambda>b2.
           if b2 then
             andthen (py_getitem e ''@lang'') (\<lambda>l.
               if l = PStr ''en'' then
                 andthen (py_getitem e ''#text'') (\<lambda>t. Inr (md(''title'' \<mapsto> t)))
               else Inr md)
           else Inr md))"

fun title_alternatives :: "pyval list \<Rightarrow> mydict \<Rightarrow> exn + mydict" where
  "title_alternatives [] md = Inr md"
| "title_alternatives (e # es) md = andthen (title_alternative e md) (title_alternatives es)"

text \<open>\<open>str(v)\<close> for the values the title block applies it to: \<open>None\<close> or a string.\<close>

definition str_scalar :: "pyval \<Rightarrow> exn + string" where
  "str_scalar v = (case v of PNone \<Rightarrow> Inr ''None'' | PStr s \<Rightarrow> Inr s
                   | _ \<Rightarrow> Inl (OtherError ''str of a value that is neither None nor a string''))"

definition tosolr_title :: "pydict \<Rightarrow> mydict \<Rightarrow> exn + mydict" where
  "tosolr_title mmd md =
     andthen (getitem mmd ''mmd:title'') (\<lambda>title.
       case title of
         PList es \<Rightarrow> title_alternatives es md
       | PDict d \<Rightarrow>
           andthen
             (if has_key d ''@xml:lang'' then
                andthen (getitem d ''@xml:lang'') (\<lambda>l.
                  if l = PStr ''en'' then
                    andthen (getitem d ''#text'') (\<lambda>t. Inr (md(''title'' \<mapsto> t)))
                  else Inr md)
              else Inr md)
             (\<lambda>md1.
                if has_key d ''@lang'' then
                  andthen (getitem d ''@lang'') (\<lambda>l.
                    if l = PStr ''en'' then
                      andthen (getitem d ''#text'') (\<lambda>t. Inr (md1(''title'' \<mapsto> t)))
                    else Inr md1)
                else Inr md1)
       | _ \<Rightarrow> andthen (str_scalar title) (\<lambda>s. Inr (md(''title'' \<mapsto> PStr s))))"

subsection \<open>Geographical extent\<close>

text \<open>
  What the block takes from outside the repository: \<open>float\<close> on a string (\<open>None\<close> where
  Python raises \<open>ValueError\<close>), \<open>str\<close> on a float, and the well-known text of a shapely
  geometry. Floats are read as the real numbers they denote; \<open>nan\<close> is outside the model.
\<close>

datatype geometry = Point real real | Polygon "(real \<times> real) list"

record pylib =
  float_of :: "string \<Rightarrow> real option"
  str_of_float :: "real \<Rightarrow> string"
  wkt :: "geometry \<Rightarrow> string"

text \<open>
  \<open>shapely.geometry.box(minx, miny, maxx, maxy, ccw)\<close>: the four corners, counter-clockwise
  from the lower right one, reversed when \<open>ccw\<close> is false.
\<close>

definition box :: "real \<Rightarrow> real \<Rightarrow> real \<Rightarrow> real \<Rightarrow> bool \<Rightarrow> geometry" where
  "box minx miny maxx maxy ccw =
     (let coords = [(maxx, miny), (maxx, maxy), (minx, maxy), (minx, miny)]
      in Polygon (if ccw then coords else rev coords))"

definition py_float :: "pylib \<Rightarrow> pyval \<Rightarrow> exn + real" where
  "py_float lib v =
     (case v of
        PStr s \<Rightarrow> (case float_of lib s of None \<Rightarrow> Inl ValueError | Some x \<Rightarrow> Inr x)
      | PFloat x \<Rightarrow> Inr x
      | _ \<Rightarrow> Inl TypeError)"

text \<open>\<open>"..." + v\<close>: only a string can be appended to a string.\<close>

definition str_plus :: "string \<Rightarrow> pyval \<Rightarrow> exn + string" where
  "str_plus s v = (case v of PStr t \<Rightarrow> Inr (s @ t) | _ \<Rightarrow> Inl TypeError)"

type_synonym st = "log \<times> mydict"

text \<open>A step that may raise, taken in state \<open>s\<close>: the exception leaves with that state.\<close>

definition orraise :: "exn + 'a \<Rightarrow> 's \<Rightarrow> ('a \<Rightarrow> exn \<times> 's + 'b) \<Rightarrow> exn \<times> 's + 'b" where
  "orraise m s f = (case m of Inl e \<Rightarrow> Inl (e, s) | Inr x \<Rightarrow> f x)"

text \<open>\<open>e['mmd:rectangle'][k]\<close>\<close>

definition rect_bound :: "pyval \<Rightarrow> string \<Rightarrow> exn + pyval" where
  "rect_bound e k = andthen (py_getitem e ''mmd:rectangle'') (\<lambda>r. py_getitem r k)"

text \<open>\<open>if e['mmd:rectangle'][k] != None: vals.append(float(e['mmd:rectangle'][k]))\<close>\<close>

definition append_bound :: "pylib \<Rightarrow> pyval \<Rightarrow> string \<Rightarrow> real list \<Rightarrow> exn + real list" where
  "append_bound lib e k vals =
     andthen (rect_bound e k) (\<lambda>b.
       if b \<noteq> PNone then andthen (py_float lib b) (\<lambda>x. Inr (vals @ [x])) else Inr vals)"

text \<open>The loop over the rectangles of a repeated extent, filling \<open>latvals\<close> and \<open>lonvals\<close>.\<close>

fun collect_bounds ::
  "pylib \<Rightarrow> pyval list \<Rightarrow> real list \<times> real list \<Rightarrow> exn + real list \<times> real list" where
  "collect_bounds lib [] acc = Inr acc"
| "collect_bounds lib (e # es) (latvals, lonvals) =
     andthen (append_bound lib e ''mmd:north'' latvals) (\<lambda>lat1.
     andthen (append_bound lib e ''mmd:south'' lat1) (\<lambda>lat2.
     andthen (append_bound lib e ''mmd:east'' lonvals) (\<lambda>lon1.
     andthen (append_bound lib e ''mmd:west'' lon1) (\<lambda>lon2.
       collect_bounds lib es (lat2, lon2)))))"

text \<open>\<open>float(e['mmd:rectangle'][k])\<close>\<close>

definition float_bound :: "pylib \<Rightarrow> pyval \<Rightarrow> string \<Rightarrow> exn + real" where
  "float_bound lib e k = andthen (rect_bound e k) (py_float lib)"

text \<open>
  The branch for a list of extents. After the loop \<open>e\<close> is still bound to the last
  element of the list, and the point-or-box test reads its four bounds.
\<close>

definition geographic_extent_list :: "pylib \<Rightarrow> pyval list \<Rightarrow> st \<Rightarrow> exn \<times> st + st" where
  "geographic_extent_list lib es = (\<lambda>(lg, md).
     let lg1 = lg @ [(WARNING, ''This is a challenge as multiple bounding boxes are not supported in MMD yet, flattening information'')] in
     orraise (collect_bounds lib es ([], [])) (lg1, md) (\<lambda>(latvals, lonvals).
       if length latvals > 0 \<and> length lonvals > 0 then
         (let md1 = md(''geographic_extent_rectangle_north'' \<mapsto> PFloat (Max (set latvals)),
                       ''geographic_extent_rectangle_south'' \<mapsto> PFloat (Min (set latvals)),
                       ''geographic_extent_rectangle_west'' \<mapsto> PFloat (Min (set lonvals)),
                       ''geographic_extent_rectangle_east'' \<mapsto> PFloat (Max (set lonvals)));
              md2 = md1(''bbox'' \<mapsto> PStr (''ENVELOPE('' @ str_of_float lib (Min (set lonvals)) @ '',''
                          @ str_of_float lib (Max (set lonvals)) @ '',''
                          @ str_of_float lib (Max (set latvals)) @ '',''
                          @ str_of_float lib (Min (set latvals)) @ '')''));
              e = last es
          in
          orraise (float_bound lib e ''mmd:north'') (lg1, md2) (\<lambda>n.
          orraise (float_bound lib e ''mmd:south'') (lg1, md2) (\<lambda>s.
            if n = s then
              orraise (float_bound lib e ''mmd:east'') (lg1, md2) (\<lambda>ea.
              orraise (float_bound lib e ''mmd:west'') (lg1, md2) (\<lambda>w.
                if ea = w then Inr (lg1, md2(''polygon_rpt'' \<mapsto> PStr (wkt lib (Point ea n))))
                else Inr (lg1, md2)))
            else
              Inr (lg1, md2(''polygon_rpt'' \<mapsto>
                     PStr (wkt lib (box (Min (set lonvals)) (Min (set latvals))
                                        (Max (set lonvals)) (Max (set latvals)) True)))))))
       else
         Inr (lg1, md(''geographic_extent_rectangle_north'' \<mapsto> PFloat 90,
                      ''geographic_extent_rectangle_south'' \<mapsto> PFloat (- 90),
                      ''geographic_extent_rectangle_west'' \<mapsto> PFloat (- 180),
                      ''geographic_extent_rectangle_east'' \<mapsto> PFloat 180))))"

text \<open>
  The branch for a single extent whose \<open>mmd:rectangle\<close> is the dictionary \<open>rect\<close>. The
  first loop raises as soon as one value of the rectangle is \<open>None\<close>, after setting the
  status. The four bounds are stored as one-element tuples (the assignments end in a
  comma).
\<close>

definition geographic_extent_rectangle :: "pylib \<Rightarrow> pydict \<Rightarrow> st \<Rightarrow> exn \<times> st + st" where
  "geographic_extent_rectangle lib rect = (\<lambda>(lg, md).
     if list_ex (\<lambda>item. getitem rect item = Inr PNone) (map fst rect) then
       Inl (Warning ''Missing spatial bounds'',
            (lg @ [(WARNING, ''Missing geographical element, will not process the file.'')],
             md(''metadata_status'' \<mapsto> PStr ''Inactive'')))
     else
       orraise (andthen (getitem rect ''mmd:north'') (py_float lib)) (lg, md) (\<lambda>n.
       let md1 = md(''geographic_extent_rectangle_north'' \<mapsto> PTuple [PFloat n]) in
       orraise (andthen (getitem rect ''mmd:south'') (py_float lib)) (lg, md1) (\<lambda>s.
       let md2 = md1(''geographic_extent_rectangle_south'' \<mapsto> PTuple [PFloat s]) in
       orraise (andthen (getitem rect ''mmd:east'') (py_float lib)) (lg, md2) (\<lambda>ea.
       let md3 = md2(''geographic_extent_rectangle_east'' \<mapsto> PTuple [PFloat ea]) in
       orraise (andthen (getitem rect ''mmd:west'') (py_float lib)) (lg, md3) (\<lambda>w.
       let md4 = md3(''geographic_extent_rectangle_west'' \<mapsto> PTuple [PFloat w]) in
       orraise (if has_key rect ''@srsName''
                then andthen (getitem rect ''@srsName'') (\<lambda>v.
                       Inr (md4(''geographic_extent_rectangle_srsName'' \<mapsto> PTuple [v])))
                else Inr md4) (lg, md4) (\<lambda>md5.
       orraise (andthen (getitem rect ''mmd:west'') (str_plus ''ENVELOPE('')) (lg, md5) (\<lambda>s1.
       orraise (andthen (getitem rect ''mmd:east'') (str_plus (s1 @ '',''))) (lg, md5) (\<lambda>s2.
       orraise (andthen (getitem rect ''mmd:north'') (str_plus (s2 @ '',''))) (lg, md5) (\<lambda>s3.
       orraise (andthen (getitem rect ''mmd:south'') (str_plus (s3 @ '',''))) (lg, md5) (\<lambda>s4.
       let md6 = md5(''bbox'' \<mapsto> PStr (s4 @ '')'')) in
       if s = n then
         (if ea = w then Inr (lg, md6(''polygon_rpt'' \<mapsto> PStr (wkt lib (Point ea n))))
          else Inr (lg, md6))
       else Inr (lg, md6(''polygon_rpt'' \<mapsto> PStr (wkt lib (box w s ea n False))))))))))))))"

text \<open>
  The whole block. A record without \<open>mmd:geographic_extent\<close>, or with an empty one
  (\<open>None\<close>), leaves the dictionary as it is.
\<close>

definition tosolr_geographic_extent :: "pylib \<Rightarrow> pydict \<Rightarrow> st \<Rightarrow> exn \<times> st + st" where
  "tosolr_geographic_extent lib mmd s =
     (if has_key mmd ''mmd:geographic_extent'' \<and> getitem mmd ''mmd:geographic_extent'' \<noteq> Inr PNone then
        orraise (getitem mmd ''mmd:geographic_extent'') s (\<lambda>ge.
          case ge of
            PList es \<Rightarrow> geographic_extent_list lib es s
          | _ \<Rightarrow>
              orraise (py_getitem ge ''mmd:rectangle'') s (\<lambda>r.
                case r of
                  PDict rect \<Rightarrow> geographic_extent_rectangle lib rect s
                | _ \<Rightarrow> Inl (TypeError, s)))
      else Inr s)"

subsection \<open>Flattening of repeated groups\<close>

text \<open>\<open>s.split(':')[-1]\<close>: what follows the last colon of \<open>s\<close>.\<close>

definition last_part :: "string \<Rightarrow> string" where
  "last_part s = rev (takeWhile (\<lambda>c. c \<noteq> CHR '':'') (rev s))"

text \<open>
  \<open>for x in v\<close>: the elements a loop over \<open>v\<close> visits. A dictionary yields its keys, a
  string its characters; \<open>None\<close> and a float are not iterable.
\<close>

fun py_iter :: "pyval \<Rightarrow> exn + pyval list" where
  "py_iter (PDict d) = Inr (map (\<lambda>kv. PStr (fst kv)) d)"
| "py_iter (PList xs) = Inr xs"
| "py_iter (PTuple xs) = Inr xs"
| "py_iter (PStr s) = Inr (map (\<lambda>c. PStr [c]) s)"
| "py_iter PNone = Inl TypeError"
| "py_iter (PFloat x) = Inl TypeError"

text \<open>
  \<open>if isinstance(elements, dict): elements = [elements]\<close>, followed by the loop over
  \<open>elements\<close>.
\<close>

definition one_or_many :: "pyval \<Rightarrow> exn + pyval list" where
  "one_or_many v = (case v of PDict d \<Rightarrow> Inr [v] | _ \<Rightarrow> py_iter v)"

text \<open>
  \<open>mydict[k].append(arg)\<close>: the lookup of \<open>k\<close> comes first, then the \<open>append\<close> attribute of
  what is found, then the argument, which may itself raise.
\<close>

definition append_arg :: "string \<Rightarrow> exn + pyval \<Rightarrow> mydict \<Rightarrow> exn + mydict" where
  "append_arg k arg md =
     (case md k of
        None \<Rightarrow> Inl (KeyError k)
      | Some (PList xs) \<Rightarrow> andthen arg (\<lambda>v. Inr (md(k \<mapsto> PList (xs @ [v]))))
      | Some _ \<Rightarrow> Inl AttributeError)"

subsection \<open>Personnel\<close>

definition personnel_role_LUT :: "(string \<times> string) list" where
  "personnel_role_LUT =
     [(''Investigator'', ''investigator''), (''Technical contact'', ''technical''),
      (''Metadata author'', ''metadata_author''), (''Data center contact'', ''datacenter'')]"

text \<open>\<open>'personnel_{}_{}'.format(code, sub)\<close>\<close>

definition family :: "string \<Rightarrow> string \<Rightarrow> string" where
  "family code sub = ''personnel_'' @ code @ ''_'' @ sub"

definition personnel_subfields :: "string list" where
  "personnel_subfields =
     [''role'', ''name'', ''email'', ''phone'', ''fax'', ''organisation'', ''address'',
      ''address_city'', ''address_province_or_state'', ''address_postal_code'',
      ''address_country'']"

text \<open>The empty lists the block starts from: the three facets, then eleven per role.\<close>

definition init_personnel :: "mydict \<Rightarrow> mydict" where
  "init_personnel md =
     fold (\<lambda>role_code m. fold (\<lambda>sub m'. m'(family (snd role_code) sub \<mapsto> PList [])) personnel_subfields m)
       personnel_role_LUT
       (md(''personnel_role'' \<mapsto> PList [], ''personnel_name'' \<mapsto> PList [],
           ''personnel_organisation'' \<mapsto> PList []))"

text \<open>
  A dictionary key must be hashable; \<open>role not in personnel_role_LUT\<close> raises on a list or
  a dictionary. The result is the short code of the role, if the table has it.
\<close>

fun hashable :: "pyval \<Rightarrow> bool" where
  "hashable (PList xs) = False"
| "hashable (PDict d) = False"
| "hashable (PTuple xs) = list_all hashable xs"
| "hashable v = True"

definition role_code :: "pyval \<Rightarrow> exn + string option" where
  "role_code role =
     (if \<not> hashable role then Inl TypeError
      else Inr (case role of PStr r \<Rightarrow> map_of personnel_role_LUT r | _ \<Rightarrow> None))"

text \<open>
  One element \<open>el\<close> of the loop over a contact address \<open>ca\<close>: \<open>el.split\<close> needs a
  string.
\<close>

definition address_element :: "string \<Rightarrow> pyval \<Rightarrow> pyval \<Rightarrow> mydict \<Rightarrow> exn + mydict" where
  "address_element code ca el md =
     (case el of
        PStr k \<Rightarrow>
          (let el_type = last_part k in
           if el_type = ''address'' then append_arg (family code el_type) (py_getitem ca k) md
           else append_arg (family code (''address_'' @ el_type)) (py_getitem ca k) md)
      | _ \<Rightarrow> Inl AttributeError)"

fun address_elements :: "string \<Rightarrow> pyval \<Rightarrow> pyval list \<Rightarrow> mydict \<Rightarrow> exn + mydict" where
  "address_elements code ca [] md = Inr md"
| "address_elements code ca (el # els) md =
     andthen (address_element code ca el md) (address_elements code ca els)"

text \<open>One key \<open>entry\<close> of the personnel element \<open>personnel\<close>, whose role has the code \<open>code\<close>.\<close>

definition personnel_entry :: "string \<Rightarrow> pydict \<Rightarrow> string \<Rightarrow> mydict \<Rightarrow> exn + mydict" where
  "personnel_entry code personnel entry md =
     (let entry_type = last_part entry in
      if entry_type = ''role'' then
        andthen (append_arg (family code ''role'') (getitem personnel entry) md)
          (append_arg ''personnel_role'' (getitem personnel entry))
      else if entry_type = ''contact_address'' then
        andthen (getitem personnel entry) (\<lambda>ca.
        andthen (py_iter ca) (\<lambda>els. address_elements code ca els md))
      else if entry_type = ''name'' then
        andthen (append_arg (family code entry_type) (getitem personnel entry) md)
          (append_arg ''personnel_name'' (getitem personnel entry))
      else if entry_type = ''organisation'' then
        andthen (append_arg (family code entry_type) (getitem personnel entry) md)
          (append_arg ''personnel_organisation'' (getitem personnel entry))
      else append_arg (family code entry_type) (getitem personnel entry) md)"

fun personnel_entries :: "string \<Rightarrow> pydict \<Rightarrow> string list \<Rightarrow> mydict \<Rightarrow> exn + mydict" where
  "personnel_entries code personnel [] md = Inr md"
| "personnel_entries code personnel (entry # entries) md =
     andthen (personnel_entry code personnel entry md) (personnel_entries code personnel entries)"

text \<open>
  The loop over the personnel elements. An element without a role, or with a role the
  table does not have, is answered with a warning and \<open>break\<close>: the loop ends there.
\<close>

fun personnel_loop :: "pyval list \<Rightarrow> log \<Rightarrow> mydict \<Rightarrow> log \<times> (exn + mydict)" where
  "personnel_loop [] lg md = (lg, Inr md)"
| "personnel_loop (personnel # rest) lg md =
     (case py_getitem personnel ''mmd:role'' of
        Inl e \<Rightarrow> (lg, Inl e)
      | Inr role \<Rightarrow>
          if \<not> truthy role then (lg @ [(WARNING, ''No role available for personnel'')], Inr md)
          else
            (case role_code role of
               Inl e \<Rightarrow> (lg, Inl e)
             | Inr None \<Rightarrow> (lg @ [(WARNING, ''Wrong role provided for personnel'')], Inr md)
             | Inr (Some code) \<Rightarrow>
                 (case personnel of
                    PDict d \<Rightarrow>
                      (case personnel_entries code d (map fst d) md of
                         Inl e \<Rightarrow> (lg, Inl e)
                       | Inr md' \<Rightarrow> personnel_loop rest lg md')
                  | _ \<Rightarrow> (lg, Inl TypeError))))"

text \<open>
  The block: the log written and the dictionary after it, or the exception raised (the
  dictionary under construction is then given up).
\<close>

definition tosolr_personnel :: "pydict \<Rightarrow> log \<Rightarrow> mydict \<Rightarrow> log \<times> (exn + mydict)" where
  "tosolr_personnel mmd lg md =
     (if has_key mmd ''mmd:personnel'' then
        (case andthen (getitem mmd ''mmd:personnel'') one_or_many of
           Inl e \<Rightarrow> (lg, Inl e)
         | Inr personnel_elements \<Rightarrow> personnel_loop personnel_elements lg (init_personnel md))
      else (lg, Inr md))"

subsection \<open>Data center and platform\<close>

text \<open>
  \<open>if not element_name in mydict.keys(): mydict[element_name] = []\<close>, then the \<open>append\<close>,
  which both branches of the source end with.
\<close>

definition flatten_element :: "string \<Rightarrow> pyval \<Rightarrow> mydict \<Rightarrow> exn + mydict" where
  "flatten_element element_name v md =
     (case md element_name of
        None \<Rightarrow> Inr (md(element_name \<mapsto> PList [v]))
      | Some (PList xs) \<Rightarrow> Inr (md(element_name \<mapsto> PList (xs @ [v])))
      | Some _ \<Rightarrow> Inl AttributeError)"

text \<open>The loop over the items of a sub-dictionary, with the naming of its fields.\<close>

fun flatten_items :: "(string \<Rightarrow> string) \<Rightarrow> pydict \<Rightarrow> mydict \<Rightarrow> exn + mydict" where
  "flatten_items nm [] md = Inr md"
| "flatten_items nm (kv # kvs) md =
     andthen (flatten_element (nm (fst kv)) (snd kv) md) (flatten_items nm kvs)"

text \<open>
  The loop over the items of one data center. A value that is not a dictionary goes to
  the field named by the last part of its own key, without the \<open>data_center_\<close> prefix.
\<close>

fun data_center_items :: "pydict \<Rightarrow> mydict \<Rightarrow> exn + mydict" where
  "data_center_items [] md = Inr md"
| "data_center_items (kv # kvs) md =
     andthen
       (case snd kv of
          PDict sub \<Rightarrow> flatten_items (\<lambda>kkey. ''data_center_'' @ last_part kkey) sub md
        | _ \<Rightarrow> flatten_element (last_part (fst kv)) (snd kv) md)
       (data_center_items kvs)"

fun data_centers :: "pyval list \<Rightarrow> mydict \<Rightarrow> exn + mydict" where
  "data_centers [] md = Inr md"
| "data_centers (data_center # rest) md =
     (case data_center of
        PDict d \<Rightarrow> andthen (data_center_items d md) (data_centers rest)
      | _ \<Rightarrow> Inl AttributeError)"

definition tosolr_data_center :: "pydict \<Rightarrow> mydict \<Rightarrow> exn + mydict" where
  "tosolr_data_center mmd md =
     (if has_key mmd ''mmd:data_center'' then
        andthen (getitem mmd ''mmd:data_center'') (\<lambda>v.
        andthen (one_or_many v) (\<lambda>data_center_elements. data_centers data_center_elements md))
      else Inr md)"

fun platform_items :: "pydict \<Rightarrow> mydict \<Rightarrow> exn + mydict" where
  "platform_items [] md = Inr md"
| "platform_items (kv # kvs) md =
     andthen
       (case snd kv of
          PDict sub \<Rightarrow>
            flatten_items (\<lambda>kkey. ''platform_'' @ last_part (fst kv) @ ''_'' @ last_part kkey) sub md
        | _ \<Rightarrow> flatten_element (''platform_'' @ last_part (fst kv)) (snd kv) md)
       (platform_items kvs)"

text \<open>\<open>v[0]\<close>\<close>

fun py_first :: "pyval \<Rightarrow> exn + pyval" where
  "py_first (PList xs) = (case xs of [] \<Rightarrow> Inl IndexError | x # _ \<Rightarrow> Inr x)"
| "py_first (PTuple xs) = (case xs of [] \<Rightarrow> Inl IndexError | x # _ \<Rightarrow> Inr x)"
| "py_first (PStr s) = (case s of [] \<Rightarrow> Inl IndexError | c # _ \<Rightarrow> Inr (PStr [c]))"
| "py_first (PDict d) = Inl (KeyError ''0'')"
| "py_first v = Inl TypeError"

text \<open>
  The sentinel field for NBS, set after each platform from the first long name in the
  dictionary: \<open>startswith\<close> needs a string, and \<open>[:-1]\<close> drops its last character.
\<close>

definition platform_sentinel :: "mydict \<Rightarrow> exn + mydict" where
  "platform_sentinel md =
     (case md ''platform_long_name'' of
        None \<Rightarrow> Inl (KeyError ''platform_long_name'')
      | Some l \<Rightarrow>
          andthen (py_first l) (\<lambda>initial_platform.
            case initial_platform of
              PStr s \<Rightarrow>
                if take 8 s = ''Sentinel'' then Inr (md(''platform_sentinel'' \<mapsto> PStr (butlast s)))
                else Inr md
            | _ \<Rightarrow> Inl AttributeError))"

fun platforms :: "pyval list \<Rightarrow> mydict \<Rightarrow> exn + mydict" where
  "platforms [] md = Inr md"
| "platforms (platform # rest) md =
     (case platform of
        PDict d \<Rightarrow> andthen (andthen (platform_items d md) platform_sentinel) (platforms rest)
      | _ \<Rightarrow> Inl AttributeError)"

definition tosolr_platform :: "pydict \<Rightarrow> mydict \<Rightarrow> exn + mydict" where
  "tosolr_platform mmd md =
     (if has_key mmd ''mmd:platform'' then
        andthen (getitem mmd ''mmd:platform'') (\<lambda>v.
        andthen (one_or_many v) (\<lambda>platform_elements. platforms platform_elements md))
      else Inr md)"

section \<open>\<open>IndexMMD\<close>\<close>

text \<open>
  The Solr client, the OPeNDAP reader and the thumbnail renderer are outside the
  repository. The core is known through the documents handed to \<open>solrc.add\<close> so far:
  given that history, \<open>solrc_add\<close> tells whether the next \<open>add\<close> raises and
  \<open>solrc_search\<close> gives the answer to a query (an exception, or the matching documents).
  The two other collaborators return the log entries they write and their result.
\<close>

record solr_env =
  get_feature_type :: "pyval \<Rightarrow> log \<times> (exn + pyval)"
  create_wms_thumbnail :: "pyval \<Rightarrow> log \<times> (exn + pyval)"
  solrc_add :: "mydict list list \<Rightarrow> mydict list \<Rightarrow> exn option"
  solrc_search :: "mydict list list \<Rightarrow> string \<Rightarrow> exn + mydict list"

text \<open>
  The state an indexing call works on: the log, the documents added to the core, one
  list per call of \<open>solrc.add\<close>, and the record passed in, which the call updates in
  place.
\<close>

record istate =
  the_log :: log
  added :: "mydict list list"
  the_record :: mydict

definition logmsg :: "level \<Rightarrow> string \<Rightarrow> istate \<Rightarrow> istate" where
  "logmsg l m s = s\<lparr>the_log := the_log s @ [(l, m)]\<rparr>"

definition logs :: "log \<Rightarrow> istate \<Rightarrow> istate" where
  "logs es s = s\<lparr>the_log := the_log s @ es\<rparr>"

definition setfield :: "string \<Rightarrow> pyval \<Rightarrow> istate \<Rightarrow> istate" where
  "setfield k v s = s\<lparr>the_record := (the_record s)(k \<mapsto> v)\<rparr>"

text \<open>
  \<open>add_thumbnail(url)\<close> with its default type \<open>wms\<close>: a failure of the renderer is
  logged and turned into \<open>None\<close>, so the method itself does not raise.
\<close>

definition add_thumbnail :: "solr_env \<Rightarrow> pyval \<Rightarrow> log \<times> pyval" where
  "add_thumbnail env url =
     (case create_wms_thumbnail env url of
        (es, Inl e) \<Rightarrow> (es @ [(ERROR, ''Thumbnail creation from OGC WMS failed: %s'')], PNone)
      | (es, Inr thumbnail) \<Rightarrow> (es, thumbnail))"

text \<open>
  The feature type lookup of both indexing methods: a failure is logged and leaves
  \<open>myfeature\<close> at \<open>None\<close>; a true value is stored in the record. The result is the new
  state and \<open>myfeature\<close>.
\<close>

definition feature_type_step :: "solr_env \<Rightarrow> istate \<Rightarrow> istate \<times> pyval" where
  "feature_type_step env s =
     (case the_record s ''data_access_url_opendap'' of
        None \<Rightarrow> (s, PNone)
      | Some url \<Rightarrow>
          (let (es, r) = get_feature_type env url;
               s1 = logs es s;
               (s2, myfeature) =
                 (case r of
                    Inl e \<Rightarrow> (logmsg ERROR ''Something failed while retrieving feature type: %s'' s1, PNone)
                  | Inr f \<Rightarrow> (s1, f))
           in if truthy myfeature
              then (setfield ''feature_type'' myfeature (logmsg INFO ''feature_type found: %s'' s2), myfeature)
              else (s2, myfeature)))"

subsection \<open>\<open>index_record\<close>\<close>

text \<open>
  The level is an integer or \<open>None\<close>. A level other than 1, 2 and \<open>None\<close> is logged as an
  error and nothing else happens.
\<close>

definition set_level :: "int option \<Rightarrow> istate \<Rightarrow> istate" where
  "set_level lvl s =
     (if lvl = Some 1 \<or> lvl = None then
        setfield ''isParent'' (PStr ''false'') (setfield ''dataset_type'' (PStr ''Level-1'') s)
      else if lvl = Some 2 then setfield ''dataset_type'' (PStr ''Level-2'') s
      else logmsg ERROR ''Invalid level given: {}. Hence terminating'' s)"

text \<open>
  The thumbnail of a record with a WMS url: without a thumbnail the url is deleted from
  the record.
\<close>

definition record_thumbnail :: "solr_env \<Rightarrow> bool \<Rightarrow> istate \<Rightarrow> istate" where
  "record_thumbnail env addThumbnail s =
     (case the_record s ''data_access_url_ogc_wms'' of
        Some getCapUrl \<Rightarrow>
          if addThumbnail then
            (let (es, thumbnail_data) = add_thumbnail env getCapUrl;
                 s1 = logs es (logmsg INFO ''Checking thumbnails...'' s)
             in if \<not> truthy thumbnail_data then
                  (logmsg WARNING ''Could not properly parse WMS GetCapabilities document'' s1)
                    \<lparr>the_record := (the_record s1)(''data_access_url_ogc_wms'' := None)\<rparr>
                else setfield ''thumbnail_data'' thumbnail_data s1)
          else s
      | None \<Rightarrow> s)"

text \<open>The record goes to the core; a failure of \<open>solrc.add\<close> is logged and answered with \<open>False\<close>.\<close>

definition add_record :: "solr_env \<Rightarrow> istate \<Rightarrow> istate \<times> (exn + bool)" where
  "add_record env s =
     (let s1 = logmsg INFO ''Adding records to core...'' s;
          mmd_record = [the_record s1]
      in case solrc_add env (added s1) mmd_record of
           Some e \<Rightarrow> (logmsg ERROR ''Something failed in SolR adding document: %s'' s1, Inr False)
         | None \<Rightarrow>
             (logmsg INFO ''Record successfully added.'' (s1\<lparr>added := added s1 @ [mmd_record]\<rparr>),
              Inr True))"

text \<open>
  The result of \<open>index_record\<close> is the state the call leaves and either the exception it
  raises or the boolean it returns.
\<close>

definition index_record ::
  "solr_env \<Rightarrow> bool \<Rightarrow> int option \<Rightarrow> istate \<Rightarrow> istate \<times> (exn + bool)" where
  "index_record env addThumbnail lvl s0 =
     (let s1 = set_level lvl s0 in
      case the_record s1 ''metadata_status'' of
        None \<Rightarrow> (s1, Inl (KeyError ''metadata_status''))
      | Some status \<Rightarrow>
          if status = PStr ''Inactive'' then (logmsg WARNING ''Skipping record'' s1, Inr False)
          else
            (let (s2, myfeature) = feature_type_step env s1 in
             case the_record s2 ''id'' of
               None \<Rightarrow> (s2, Inl (KeyError ''id''))
             | Some ident \<Rightarrow> add_record env (record_thumbnail env addThumbnail s2)))"

subsection \<open>\<open>add_level2\<close>\<close>

text \<open>\<open>s.replace(old, new)\<close> on strings.\<close>

fun replace_from :: "string \<Rightarrow> string \<Rightarrow> string \<Rightarrow> string" where
  "replace_from old new [] = []"
| "replace_from old new (c # cs) =
     (if take (length old) (c # cs) = old
      then new @ replace_from old new (drop (length old - 1) cs)
      else c # replace_from old new cs)"

definition replace_str :: "string \<Rightarrow> string \<Rightarrow> string \<Rightarrow> string" where
  "replace_str old new s =
     (if old = [] then new @ concat (map (\<lambda>c. c # new) s) else replace_from old new s)"

text \<open>\<open>v.replace(old, new)\<close> on a value: only a string has the method.\<close>

definition py_replace :: "pyval \<Rightarrow> string \<Rightarrow> string \<Rightarrow> exn + string" where
  "py_replace v old new = (case v of PStr s \<Rightarrow> Inr (replace_str old new s) | _ \<Rightarrow> Inl AttributeError)"

text \<open>The three replacements that turn an identifier into a document id.\<close>

definition idrepls :: "string list" where
  "idrepls = ['':'', ''/'', ''.'']"

definition sanitize :: "string \<Rightarrow> string" where
  "sanitize myid = fold (\<lambda>e acc. replace_str e ''-'' acc) idrepls myid"

text \<open>
  \<open>item in v\<close> and \<open>v.append(item)\<close> for a string \<open>item\<close> and the value of the parent's
  \<open>related_dataset\<close> field.
\<close>

definition py_append :: "pyval \<Rightarrow> pyval \<Rightarrow> exn + pyval" where
  "py_append v item = (case v of PList xs \<Rightarrow> Inr (PList (xs @ [item])) | _ \<Rightarrow> Inl AttributeError)"

text \<open>
  The loop over the (single) result: the store-internal fields are popped, and only
  when the document carries \<open>_version_\<close> is \<open>myresults\<close> rebound to the document.
  Otherwise \<open>myresults\<close> is still the result object of the client, which takes no item
  assignment.
\<close>

definition strip_internal :: "mydict \<Rightarrow> mydict" where
  "strip_internal result =
     result(''full_text'' := None, ''bbox__maxX'' := None, ''bbox__maxY'' := None,
            ''bbox__minX'' := None, ''bbox__minY'' := None, ''bbox_rpt'' := None,
            ''ss_access'' := None, ''_version_'' := None)"

text \<open>
  The update of the fetched parent \<open>result\<close> for the child record \<open>child\<close>: the
  parent flag, then the child's reference (its \<open>metadata_identifier\<close> with \<open>:\<close> replaced
  by \<open>_\<close>) appended to \<open>related_dataset\<close> unless it is there. The result is the log
  entries written and the updated parent, or an exception.
\<close>

definition child_reference :: "mydict \<Rightarrow> exn + string" where
  "child_reference child =
     (case child ''metadata_identifier'' of
        None \<Rightarrow> Inl (KeyError ''metadata_identifier'')
      | Some mi \<Rightarrow> py_replace mi '':'' ''_'')"

definition update_parent :: "mydict \<Rightarrow> mydict \<Rightarrow> log \<times> (exn + mydict)" where
  "update_parent child result =
     (if result ''_version_'' = None then ([], Inl TypeError)
      else
        (let myresults = (strip_internal result)(''isParent'' \<mapsto> PStr ''true'') in
         case myresults ''related_dataset'' of
           Some rd \<Rightarrow>
             ([],
              andthen (child_reference child) (\<lambda>cid.
              andthen (py_in cid rd) (\<lambda>present.
                if \<not> present then
                  andthen (py_append rd (PStr cid)) (\<lambda>rd'.
                    Inr (myresults(''related_dataset'' \<mapsto> rd')))
                else Inr myresults)))
         | None \<Rightarrow>
             (case child_reference child of
                Inl e \<Rightarrow> ([(INFO, ''This dataset was not found in parent, creating it...'')], Inl e)
              | Inr cid \<Rightarrow>
                  ([(INFO, ''This dataset was not found in parent, creating it...''),
                    (INFO, ''Adding dataset with identifier %s to parent %s'')],
                   Inr (myresults(''related_dataset'' \<mapsto> PList [PStr cid]))))))"

text \<open>The fix for NPI data: four replacements on the parent reference of the child.\<close>

definition npi_fix :: "pyval \<Rightarrow> exn + string" where
  "npi_fix rd =
     andthen (py_replace rd ''http://data.npolar.no/dataset/'' []) (\<lambda>r1.
     andthen (py_replace (PStr r1) ''https://data.npolar.no/dataset/'' []) (\<lambda>r2.
     andthen (py_replace (PStr r2) ''http://api.npolar.no/dataset/'' []) (\<lambda>r3.
       py_replace (PStr r3) ''.xml'' [])))"

text \<open>
  The thumbnail step of \<open>add_level2\<close>. \<open>thumbnail_data\<close> is bound only when the record
  has a WMS url and a thumbnail is asked for; the test that follows reads it whenever a
  thumbnail is asked for.
\<close>

definition level2_thumbnail :: "solr_env \<Rightarrow> bool \<Rightarrow> istate \<Rightarrow> istate \<times> (exn + unit)" where
  "level2_thumbnail env addThumbnail s =
     (case the_record s ''data_access_url_ogc_wms'' of
        Some getCapUrl \<Rightarrow>
          if addThumbnail then
            (let (es, thumbnail_data) = add_thumbnail env getCapUrl;
                 s1 = logs es (logmsg INFO ''Checking tumbnails...'' s)
             in if truthy thumbnail_data then (setfield ''thumbnail_data'' thumbnail_data s1, Inr ())
                else (s1, Inr ()))
          else (s, Inr ())
      | None \<Rightarrow> if addThumbnail then (s, Inl UnboundLocalError) else (s, Inr ()))"

text \<open>
  The two writes: the child, then the updated parent. A failure of either is raised
  again as a plain \<open>Exception\<close>.
\<close>

definition write_both :: "solr_env \<Rightarrow> mydict \<Rightarrow> istate \<Rightarrow> istate \<times> (exn + unit)" where
  "write_both env parent s =
     (let mmd_record2 = [the_record s]; mmd_record1 = [parent] in
      case solrc_add env (added s) mmd_record2 of
        Some e \<Rightarrow> (s, Inl (Exception ''Something failed in SolR add level 2''))
      | None \<Rightarrow>
          (let s1 = logmsg INFO ''Level 2 record successfully added.''
                      (s\<lparr>added := added s @ [mmd_record2]\<rparr>)
           in case solrc_add env (added s1) mmd_record1 of
                Some e \<Rightarrow> (s1, Inl (Exception ''Something failed in SolR update level 1 for level 2''))
              | None \<Rightarrow>
                  (logmsg INFO ''Level 1 record successfully updated.''
                     (s1\<lparr>added := added s1 @ [mmd_record1]\<rparr>),
                   Inr ())))"

text \<open>
  The retrieval of the level 1 record and what follows. A failed search is logged and
  leaves \<open>myresults\<close> unbound, so the length test raises. Any number of results other
  than one ends the call with a warning and without a write.
\<close>

definition link_to_parent :: "solr_env \<Rightarrow> string \<Rightarrow> istate \<Rightarrow> istate \<times> (exn + unit)" where
  "link_to_parent env rd s =
     (let myparid = sanitize rd in
      case solrc_search env (added s) (''id:'' @ myparid) of
        Inl e \<Rightarrow>
          (logmsg ERROR ''Something failed in searching for parent dataset, '' s, Inl UnboundLocalError)
      | Inr myresults \<Rightarrow>
          if length myresults \<noteq> 1 then
            (logmsg WARNING ''Didn't find unique parent record, skipping record'' s, Inr ())
          else
            (let (es, r) = update_parent (the_record s) (hd myresults);
                 s1 = logs es s
             in case r of
                  Inl e \<Rightarrow> (s1, Inl e)
                | Inr parent \<Rightarrow> write_both env parent s1))"

definition add_level2 :: "solr_env \<Rightarrow> bool \<Rightarrow> istate \<Rightarrow> istate \<times> (exn + unit)" where
  "add_level2 env addThumbnail s0 =
     (case the_record s0 ''related_dataset'' of
        None \<Rightarrow> (s0, Inl (KeyError ''related_dataset''))
      | Some rd0 \<Rightarrow>
          (case npi_fix rd0 of
             Inl e \<Rightarrow> (s0, Inl e)
           | Inr rd \<Rightarrow>
               (let s1 = setfield ''isChild'' (PStr ''true'') (setfield ''related_dataset'' (PStr rd) s0);
                    (s2, myfeature) = feature_type_step env s1
                in case the_record s2 ''id'' of
                     None \<Rightarrow> (s2, Inl (KeyError ''id''))
                   | Some ident \<Rightarrow>
                       (case level2_thumbnail env addThumbnail s2 of
                          (s3, Inl e) \<Rightarrow> (s3, Inl e)
                        | (s3, Inr u) \<Rightarrow> link_to_parent env rd s3))))"

section \<open>Notions used to state the properties\<close>

subsection \<open>Stand-ins for the collaborators, to run the model on examples\<close>

text \<open>
  \<open>demo_float\<close> reads a decimal integer literal with an optional minus sign, and
  nothing else; \<open>demo_lib\<close> renders every float and every geometry as a fixed text.
\<close>

fun dec :: "string \<Rightarrow> nat \<Rightarrow> nat option" where
  "dec [] acc = Some acc"
| "dec (c # cs) acc =
     (if c \<in> set ''0123456789'' then dec cs (10 * acc + (of_char c - 48)) else None)"

definition demo_float :: "string \<Rightarrow> real option" where
  "demo_float s =
     (case s of
        [] \<Rightarrow> None
      | c # cs \<Rightarrow>
          if c = CHR ''-'' then (if cs = [] then None else map_option (\<lambda>n. - real n) (dec cs 0))
          else map_option real (dec s 0))"

definition demo_lib :: pylib where
  "demo_lib = \<lparr>float_of = demo_float, str_of_float = (\<lambda>x. ''<float>''), wkt = (\<lambda>g. ''<wkt>'')\<rparr>"

text \<open>
  \<open>demo_search\<close> answers a query \<open>id:X\<close> with the document last added under the id \<open>X\<close>,
  if there is one, and attaches a \<open>_version_\<close> to it as the core does. In \<open>demo_env\<close> no
  \<open>add\<close> fails, and there is neither an OPeNDAP service nor a map service.
\<close>

definition has_id :: "string \<Rightarrow> mydict \<Rightarrow> bool" where
  "has_id q d = (case d ''id'' of Some (PStr i) \<Rightarrow> ''id:'' @ i = q | _ \<Rightarrow> False)"

definition demo_search :: "mydict list list \<Rightarrow> string \<Rightarrow> exn + mydict list" where
  "demo_search history q =
     Inr (map (\<lambda>d. d(''_version_'' \<mapsto> PFloat 1)) (take 1 (filter (has_id q) (rev (concat history)))))"

definition demo_env :: solr_env where
  "demo_env =
     \<lparr>get_feature_type = (\<lambda>url. ([], Inl (OtherError ''no OPeNDAP service''))),
      create_wms_thumbnail = (\<lambda>url. ([], Inl (OtherError ''no map service''))),
      solrc_add = (\<lambda>history docs. None),
      solrc_search = demo_search\<rparr>"

subsection \<open>Well-formed extents\<close>

text \<open>An extent element with the four bounds \<open>n\<close>, \<open>s\<close>, \<open>e\<close>, \<open>w\<close>, as the parser builds it.\<close>

definition rectangle :: "pyval \<Rightarrow> pyval \<Rightarrow> pyval \<Rightarrow> pyval \<Rightarrow> pyval" where
  "rectangle n s e w =
     PDict [(''mmd:rectangle'',
             PDict [(''mmd:north'', n), (''mmd:south'', s), (''mmd:east'', e), (''mmd:west'', w)])]"

text \<open>
  The bound \<open>k\<close> of the extent element \<open>e\<close>, as a list: empty when the bound is \<open>None\<close>
  (or cannot be read), the number it denotes otherwise. \<open>bound_ok\<close> holds when the bound
  is there and is \<open>None\<close> or a number.
\<close>

definition bound_val :: "pylib \<Rightarrow> pyval \<Rightarrow> string \<Rightarrow> real list" where
  "bound_val lib e k =
     (case rect_bound e k of
        Inr v \<Rightarrow> (if v = PNone then [] else (case py_float lib v of Inr x \<Rightarrow> [x] | Inl _ \<Rightarrow> []))
      | Inl _ \<Rightarrow> [])"

definition bound_ok :: "pylib \<Rightarrow> pyval \<Rightarrow> string \<Rightarrow> bool" where
  "bound_ok lib e k =
     (case rect_bound e k of
        Inr v \<Rightarrow> v = PNone \<or> (case py_float lib v of Inr x \<Rightarrow> True | Inl _ \<Rightarrow> False)
      | Inl _ \<Rightarrow> False)"

definition extent_ok :: "pylib \<Rightarrow> pyval \<Rightarrow> bool" where
  "extent_ok lib e =
     (bound_ok lib e ''mmd:north'' \<and> bound_ok lib e ''mmd:south'' \<and>
      bound_ok lib e ''mmd:east'' \<and> bound_ok lib e ''mmd:west'')"

text \<open>An extent element with all four bounds present, as numbers.\<close>

definition extent_complete :: "pylib \<Rightarrow> pyval \<Rightarrow> bool" where
  "extent_complete lib e =
     (bound_val lib e ''mmd:north'' \<noteq> [] \<and> bound_val lib e ''mmd:south'' \<noteq> [] \<and>
      bound_val lib e ''mmd:east'' \<noteq> [] \<and> bound_val lib e ''mmd:west'' \<noteq> [])"

text \<open>The latitude bounds and the longitude bounds that the rectangles of a list carry.\<close>

definition lat_bounds :: "pylib \<Rightarrow> pyval list \<Rightarrow> real list" where
  "lat_bounds lib es = concat (map (\<lambda>e. bound_val lib e ''mmd:north'' @ bound_val lib e ''mmd:south'') es)"

definition lon_bounds :: "pylib \<Rightarrow> pyval list \<Rightarrow> real list" where
  "lon_bounds lib es = concat (map (\<lambda>e. bound_val lib e ''mmd:east'' @ bound_val lib e ''mmd:west'') es)"

text \<open>The dictionary a block of \<open>tosolr\<close> produces, if it returns.\<close>

definition produced :: "exn \<times> st + st \<Rightarrow> mydict option" where
  "produced r = (case r of Inl _ \<Rightarrow> None | Inr s \<Rightarrow> Some (snd s))"

definition field_of :: "string \<Rightarrow> mydict option \<Rightarrow> pyval option" where
  "field_of k r = (case r of None \<Rightarrow> None | Some md \<Rightarrow> md k)"

subsection \<open>The query for the parent\<close>

text \<open>
  The query \<open>add_level2\<close> sends for the parent of a child record: \<open>id:\<close> followed by the
  parent reference of the record, after the NPI fix and the three replacements.
\<close>

definition parent_query :: "mydict \<Rightarrow> exn + string" where
  "parent_query child =
     (case child ''related_dataset'' of
        None \<Rightarrow> Inl (KeyError ''related_dataset'')
      | Some rd0 \<Rightarrow> andthen (npi_fix rd0) (\<lambda>rd. Inr (''id:'' @ sanitize rd)))"

subsection \<open>A child and its parent, as examples\<close>

definition demo_child :: mydict where
  "demo_child =
     [''id'' \<mapsto> PStr ''no-met-child'', ''metadata_identifier'' \<mapsto> PStr ''no.met:child'',
      ''metadata_status'' \<mapsto> PStr ''Active'', ''related_dataset'' \<mapsto> PStr ''no-met-parent'']"

definition demo_parent :: mydict where
  "demo_parent =
     [''id'' \<mapsto> PStr ''no-met-parent'', ''metadata_identifier'' \<mapsto> PStr ''no.met:parent'',
      ''metadata_status'' \<mapsto> PStr ''Active'']"

text \<open>The child and the parent as the first link of the child leaves them in the core.\<close>

definition demo_child_linked :: mydict where
  "demo_child_linked =
     [''id'' \<mapsto> PStr ''no-met-child'', ''metadata_identifier'' \<mapsto> PStr ''no.met:child'',
      ''metadata_status'' \<mapsto> PStr ''Active'', ''related_dataset'' \<mapsto> PStr ''no-met-parent'',
      ''isChild'' \<mapsto> PStr ''true'']"

definition demo_parent_linked :: mydict where
  "demo_parent_linked =
     [''id'' \<mapsto> PStr ''no-met-parent'', ''metadata_identifier'' \<mapsto> PStr ''no.met:parent'',
      ''metadata_status'' \<mapsto> PStr ''Active'', ''isParent'' \<mapsto> PStr ''true'',
      ''related_dataset'' \<mapsto> PList [PStr ''no.met_child'']]"

definition demo_linked_log :: log where
  "demo_linked_log =
     [(INFO, ''Level 2 record successfully added.''), (INFO, ''Level 1 record successfully updated.'')]"

subsection \<open>Flattened families and what the instances of a group carry\<close>

text \<open>The number of elements of the list under a field; 0 when the field is absent.\<close>

definition flen :: "mydict \<Rightarrow> string \<Rightarrow> nat" where
  "flen md k = (case md k of Some (PList xs) \<Rightarrow> length xs | _ \<Rightarrow> 0)"

text \<open>The short codes of the role table.\<close>

definition role_codes :: "string list" where
  "role_codes = map snd personnel_role_LUT"

text \<open>The short code of the role of a personnel element, if the table has its role.\<close>

definition role_of :: "pyval \<Rightarrow> string option" where
  "role_of p = (case py_getitem p ''mmd:role'' of Inr (PStr r) \<Rightarrow> map_of personnel_role_LUT r | _ \<Rightarrow> None)"

definition with_role :: "string \<Rightarrow> pyval list \<Rightarrow> pyval list" where
  "with_role code ps = filter (\<lambda>p. role_of p = Some code) ps"

text \<open>
  The sub-fields a personnel element carries, one name per value: the last part of each
  of its keys, and for a contact address the names of its parts (\<open>address\<close> for the
  address itself, \<open>address_city\<close> and so on for the others).
\<close>

definition address_part :: "string \<Rightarrow> string" where
  "address_part k = (if last_part k = ''address'' then ''address'' else ''address_'' @ last_part k)"

definition address_subfields :: "pyval \<Rightarrow> string list" where
  "address_subfields ca = (case ca of PDict d \<Rightarrow> map (\<lambda>kv. address_part (fst kv)) d | _ \<Rightarrow> [])"

definition entry_subfields :: "pydict \<Rightarrow> string \<Rightarrow> string list" where
  "entry_subfields d k =
     (if last_part k = ''contact_address''
      then (case getitem d k of Inr ca \<Rightarrow> address_subfields ca | Inl _ \<Rightarrow> [])
      else [last_part k])"

definition subfields :: "pyval \<Rightarrow> string list" where
  "subfields p = (case p of PDict d \<Rightarrow> concat (map (entry_subfields d) (map fst d)) | _ \<Rightarrow> [])"

text \<open>How many values an element carries for the sub-field \<open>sub\<close>.\<close>

definition occurrences :: "pyval \<Rightarrow> string \<Rightarrow> nat" where
  "occurrences p sub = count_list (subfields p) sub"

text \<open>
  The fields the values of a data center go to, one name per value, and the same for a
  platform.
\<close>

definition data_center_fields :: "pyval \<Rightarrow> string list" where
  "data_center_fields dc =
     (case dc of
        PDict d \<Rightarrow>
          concat (map (\<lambda>kv. case snd kv of
                              PDict sub \<Rightarrow> map (\<lambda>kv'. ''data_center_'' @ last_part (fst kv')) sub
                            | _ \<Rightarrow> [last_part (fst kv)]) d)
      | _ \<Rightarrow> [])"

definition platform_fields :: "pyval \<Rightarrow> string list" where
  "platform_fields pf =
     (case pf of
        PDict d \<Rightarrow>
          concat (map (\<lambda>kv. case snd kv of
                              PDict sub \<Rightarrow>
                                map (\<lambda>kv'. ''platform_'' @ last_part (fst kv) @ ''_'' @ last_part (fst kv')) sub
                            | _ \<Rightarrow> [''platform_'' @ last_part (fst kv)]) d)
      | _ \<Rightarrow> [])"

text \<open>The fields one key of a personnel element appends to, in the order of the code.\<close>

definition entry_targets :: "string \<Rightarrow> pydict \<Rightarrow> string \<Rightarrow> string list" where
  "entry_targets code d k =
     (if last_part k = ''role'' then [family code ''role'', ''personnel_role'']
      else if last_part k = ''contact_address'' then map (family code) (entry_subfields d k)
      else if last_part k = ''name'' then [family code ''name'', ''personnel_name'']
      else if last_part k = ''organisation'' then [family code ''organisation'', ''personnel_organisation'']
      else [family code (last_part k)])"

text \<open>The fields the personnel block starts as empty lists.\<close>

definition personnel_families :: "string list" where
  "personnel_families =
     [''personnel_role'', ''personnel_name'', ''personnel_organisation'']
     @ concat (map (\<lambda>code. map (family code) personnel_subfields) role_codes)"

text \<open>Every field of \<open>fs\<close> holds a list.\<close>

definition lists_at :: "string list \<Rightarrow> mydict \<Rightarrow> bool" where
  "lists_at fs md = list_all (\<lambda>f. case md f of Some (PList xs) \<Rightarrow> True | _ \<Rightarrow> False) fs"

text \<open>
  A personnel element as the schema has it: a dictionary with a role of the table,
  whose sub-fields are among those the block has lists for, and whose contact address,
  if it has one, is a dictionary.
\<close>

definition address_is_dict :: "pydict \<Rightarrow> string \<Rightarrow> bool" where
  "address_is_dict d k =
     (if last_part k = ''contact_address''
      then (case getitem d k of Inr (PDict ca) \<Rightarrow> True | _ \<Rightarrow> False)
      else True)"

definition well_formed_personnel :: "pyval \<Rightarrow> bool" where
  "well_formed_personnel p =
     (role_of p \<noteq> None
      \<and> (case p of PDict d \<Rightarrow> list_all (address_is_dict d) (map fst d) | _ \<Rightarrow> False)
      \<and> list_all (\<lambda>sub. sub \<in> set personnel_subfields) (subfields p))"

text \<open>The length of a family in the dictionary a block returns.\<close>

definition family_length :: "string \<Rightarrow> log \<times> (exn + mydict) \<Rightarrow> nat option" where
  "family_length k r = (case snd r of Inr md \<Rightarrow> Some (flen md k) | Inl _ \<Rightarrow> None)"

definition element_targets :: "pyval \<Rightarrow> string list" where
  "element_targets p =
     (case p of
        PDict d \<Rightarrow> (case role_of p of
                      Some code \<Rightarrow> concat (map (entry_targets code d) (map fst d))
                    | None \<Rightarrow> [])
      | _ \<Rightarrow> [])"

text \<open>An investigator with a name and an e-mail address, and one with a name only.\<close>

definition demo_persons :: "pyval list" where
  "demo_persons =
     [PDict [(''mmd:role'', PStr ''Investigator''), (''mmd:name'', PStr ''Ada''),
             (''mmd:email'', PStr ''ada@example.org'')],
      PDict [(''mmd:role'', PStr ''Investigator''), (''mmd:name'', PStr ''Bob'')]]"

definition demo_personnel :: pydict where
  "demo_personnel = [(''mmd:personnel'', PList demo_persons)]"

text \<open>Two data centers with a short name, a long name and a url each, and a platform.\<close>

definition demo_centers :: "pyval list" where
  "demo_centers =
     [PDict [(''mmd:data_center_name'',
              PDict [(''mmd:short_name'', PStr ''NPI''), (''mmd:long_name'', PStr ''Norwegian Polar Institute'')]),
             (''mmd:data_center_url'', PStr ''https://npolar.no'')],
      PDict [(''mmd:data_center_name'',
              PDict [(''mmd:short_name'', PStr ''MET''),
                     (''mmd:long_name'', PStr ''Norwegian Meteorological Institute'')]),
             (''mmd:data_center_url'', PStr ''https://met.no'')]]"

definition demo_platform :: pyval where
  "demo_platform =
     PDict [(''mmd:short_name'', PStr ''S1A''), (''mmd:long_name'', PStr ''Sentinel-1A''),
            (''mmd:instrument'',
             PDict [(''mmd:short_name'', PStr ''SAR''), (''mmd:long_name'', PStr ''Synthetic Aperture Radar'')])]"

definition demo_groups :: pydict where
  "demo_groups =
     [(''mmd:personnel'', PList demo_persons), (''mmd:data_center'', PList demo_centers),
      (''mmd:platform'', demo_platform)]"

text \<open>
  The personnel elements the loop gets through: those before the first one without a
  role of the table, where the loop ends.
\<close>

definition reached :: "pyval list \<Rightarrow> pyval list" where
  "reached ps = takeWhile (\<lambda>p. role_of p \<noteq> None) ps"

text \<open>The two investigators again, with an element between them whose role the table lacks.\<close>

definition demo_persons_break :: "pyval list" where
  "demo_persons_break =
     [PDict [(''mmd:role'', PStr ''Investigator''), (''mmd:name'', PStr ''Ada''),
             (''mmd:email'', PStr ''ada@example.org'')],
      PDict [(''mmd:role'', PStr ''Boss''), (''mmd:name'', PStr ''Eve'')],
      PDict [(''mmd:role'', PStr ''Investigator''), (''mmd:name'', PStr ''Bob'')]]"

definition demo_personnel_break :: pydict where
  "demo_personnel_break = [(''mmd:personnel'', PList demo_persons_break)]"

section \<open>Properties\<close>

subsection \<open>Required elements\<close>

lemma check_requirement_absent:
  "\<not> has_key mmd requirement \<Longrightarrow> check_requirement requirement (lg, mmd) = (lg, mmd)"
  by (simp add: check_requirement_def)

lemma check_requirement_empty:
  "map_of mmd requirement = Some PNone \<Longrightarrow>
   check_requirement requirement (lg, mmd) =
     (lg @ [(INFO, ''Checking for: %s''),
            (WARNING, ''Required element %s is missing, setting it to unknown'')],
      AList.update requirement (PStr ''Unknown'') mmd)"
  by (simp add: check_requirement_def has_key_def)

text \<open>
  C5. A record without a title comes out of the check of the required elements as
  it went in: no \<open>Unknown\<close> is put in its place and no warning is logged, since the branch
  that would do so stands under the test that the element is present. The title block
  of \<open>tosolr\<close> then raises \<open>KeyError\<close>.
\<close>

theorem check_mmd_title_absent:
  "check_mmd_requirements ([], [(''mmd:metadata_identifier'', PStr ''no.met:abc'')]) =
     ([(INFO, ''Checking for: %s''), (INFO, ''%s is present and non empty'')],
      [(''mmd:metadata_identifier'', PStr ''no.met:abc'')])
   \<and> tosolr_title [(''mmd:metadata_identifier'', PStr ''no.met:abc'')] Map.empty =
       Inl (KeyError ''mmd:title'')"
  by (simp add: check_mmd_requirements_def mmd_requirements_def check_requirement_def
      has_key_def tosolr_title_def getitem_def andthen_def)

subsection \<open>Geographical extent\<close>

lemma getitem_has_key: "getitem d k = Inr v \<Longrightarrow> has_key d k"
  by (simp add: getitem_def has_key_def split: option.splits)

lemma getitem_in_keys: "getitem d k = Inr v \<Longrightarrow> k \<in> set (map fst d)"
  by (auto simp: getitem_def split: option.splits dest: map_of_SomeD intro: rev_image_eqI)

lemma index_record_inactive:
  assumes "the_record s ''metadata_status'' = Some (PStr ''Inactive'')"
  shows "snd (index_record env addThumbnail lvl s) = Inr False"
    and "added (fst (index_record env addThumbnail lvl s)) = added s"
  using assms by (simp_all add: index_record_def set_level_def setfield_def logmsg_def Let_def)

text \<open>
  C4. A single extent whose rectangle has a bound that is \<open>None\<close> makes the block raise
  \<open>Warning('Missing spatial bounds')\<close>, with the status of the dictionary under
  construction set to \<open>Inactive\<close>; and \<open>index_record\<close>, given a record with that status,
  returns \<open>False\<close> and adds nothing to the core.
\<close>

theorem missing_bound_is_fatal:
  assumes "getitem mmd ''mmd:geographic_extent'' = Inr (PDict ge)"
    and "getitem ge ''mmd:rectangle'' = Inr (PDict rect)"
    and "k \<in> {''mmd:north'', ''mmd:south'', ''mmd:east'', ''mmd:west''}"
    and "getitem rect k = Inr PNone"
  shows "\<exists>lg' md'.
           tosolr_geographic_extent lib mmd (lg, md) = Inl (Warning ''Missing spatial bounds'', (lg', md'))
         \<and> md' ''metadata_status'' = Some (PStr ''Inactive'')
         \<and> (\<forall>env addThumbnail lvl s. the_record s = md' \<longrightarrow>
               snd (index_record env addThumbnail lvl s) = Inr False
             \<and> added (fst (index_record env addThumbnail lvl s)) = added s)"
proof -
  have ex: "list_ex (\<lambda>item. getitem rect item = Inr PNone) (map fst rect)"
    unfolding list_ex_iff using assms(4) getitem_in_keys by blast
  have "tosolr_geographic_extent lib mmd (lg, md) =
          Inl (Warning ''Missing spatial bounds'',
               (lg @ [(WARNING, ''Missing geographical element, will not process the file.'')],
                md(''metadata_status'' \<mapsto> PStr ''Inactive'')))"
    using assms(1,2) ex getitem_has_key[OF assms(1)]
    by (simp add: tosolr_geographic_extent_def orraise_def geographic_extent_rectangle_def)
  then show ?thesis
    using index_record_inactive by fastforce
qed

theorem missing_bound_is_fatal_witness:
  "tosolr_geographic_extent demo_lib
     [(''mmd:geographic_extent'', rectangle (PStr ''70'') (PStr ''60'') PNone (PStr ''10''))]
     ([], Map.empty) =
   Inl (Warning ''Missing spatial bounds'',
        ([(WARNING, ''Missing geographical element, will not process the file.'')],
         [''metadata_status'' \<mapsto> PStr ''Inactive'']))
   \<and> index_record demo_env False (Some 1)
        \<lparr>the_log = [], added = [], the_record = [''metadata_status'' \<mapsto> PStr ''Inactive'']\<rparr> =
       (\<lparr>the_log = [(WARNING, ''Skipping record'')], added = [],
         the_record = [''metadata_status'' \<mapsto> PStr ''Inactive'', ''dataset_type'' \<mapsto> PStr ''Level-1'',
                       ''isParent'' \<mapsto> PStr ''false'']\<rparr>, Inr False)"
proof -
  let ?rect = "[(''mmd:north'', PStr ''70''), (''mmd:south'', PStr ''60''), (''mmd:east'', PNone),
                (''mmd:west'', PStr ''10'')]"
  let ?ge = "[(''mmd:rectangle'', PDict ?rect)]"
  let ?mmd = "[(''mmd:geographic_extent'', PDict ?ge)]"
  have "\<exists>lg' md'.
           tosolr_geographic_extent demo_lib ?mmd ([], Map.empty) =
             Inl (Warning ''Missing spatial bounds'', (lg', md'))
         \<and> md' ''metadata_status'' = Some (PStr ''Inactive'')
         \<and> (\<forall>env addThumbnail lvl s. the_record s = md' \<longrightarrow>
               snd (index_record env addThumbnail lvl s) = Inr False
             \<and> added (fst (index_record env addThumbnail lvl s)) = added s)"
    by (rule missing_bound_is_fatal[of ?mmd ?ge ?rect "''mmd:east''"]) (simp_all add: getitem_def)
  then show ?thesis
    by (simp add: tosolr_geographic_extent_def has_key_def getitem_def rectangle_def orraise_def
        geographic_extent_rectangle_def index_record_def set_level_def setfield_def logmsg_def)
qed

lemma append_bound_val:
  "bound_ok lib e k \<Longrightarrow> append_bound lib e k vals = Inr (vals @ bound_val lib e k)"
  by (auto simp: bound_ok_def bound_val_def append_bound_def andthen_def split: sum.splits)

lemma collect_bounds_ok:
  "\<forall>e\<in>set es. extent_ok lib e \<Longrightarrow>
   collect_bounds lib es (la, lo) = Inr (la @ lat_bounds lib es, lo @ lon_bounds lib es)"
proof (induction es arbitrary: la lo)
  case Nil
  then show ?case by (simp add: lat_bounds_def lon_bounds_def)
next
  case (Cons e es)
  then have e: "extent_ok lib e" and rest: "\<forall>e\<in>set es. extent_ok lib e" by simp_all
  show ?case
    using e Cons.IH[OF rest]
    by (simp add: extent_ok_def append_bound_val andthen_def lat_bounds_def lon_bounds_def)
qed

lemma float_bound_val:
  "bound_val lib e k \<noteq> [] \<Longrightarrow> float_bound lib e k = Inr (hd (bound_val lib e k))"
  by (auto simp: bound_val_def float_bound_def andthen_def split: sum.splits if_splits)

text \<open>
  C9, as the claim states it: a record with no geographic extent at all does not get
  the world extent. The block leaves the dictionary empty.
\<close>

theorem no_extent_no_bounds:
  "produced (tosolr_geographic_extent demo_lib
      [(''mmd:metadata_identifier'', PStr ''no.met:abc'')] ([], Map.empty)) = Some Map.empty"
  by (simp add: tosolr_geographic_extent_def has_key_def produced_def)

text \<open>
  C9, amended. The world extent is the fallback of the branch for a list of extents:
  it is taken when the rectangles of the list give no latitude bound or no longitude
  bound (so also for an empty list). A record whose extent is absent or \<open>None\<close> goes
  through the block unchanged.
\<close>

theorem world_extent_fallback:
  "(\<not> has_key mmd ''mmd:geographic_extent'' \<or> getitem mmd ''mmd:geographic_extent'' = Inr PNone
      \<longrightarrow> tosolr_geographic_extent lib mmd (lg, md) = Inr (lg, md))
   \<and> (getitem mmd ''mmd:geographic_extent'' = Inr (PList es) \<and> (\<forall>e\<in>set es. extent_ok lib e)
        \<and> (lat_bounds lib es = [] \<or> lon_bounds lib es = [])
      \<longrightarrow> produced (tosolr_geographic_extent lib mmd (lg, md)) =
            Some (md(''geographic_extent_rectangle_north'' \<mapsto> PFloat 90,
                     ''geographic_extent_rectangle_south'' \<mapsto> PFloat (- 90),
                     ''geographic_extent_rectangle_west'' \<mapsto> PFloat (- 180),
                     ''geographic_extent_rectangle_east'' \<mapsto> PFloat 180)))"
proof (intro conjI impI)
  assume "\<not> has_key mmd ''mmd:geographic_extent'' \<or> getitem mmd ''mmd:geographic_extent'' = Inr PNone"
  then show "tosolr_geographic_extent lib mmd (lg, md) = Inr (lg, md)"
    by (auto simp: tosolr_geographic_extent_def)
next
  assume a: "getitem mmd ''mmd:geographic_extent'' = Inr (PList es) \<and> (\<forall>e\<in>set es. extent_ok lib e)
        \<and> (lat_bounds lib es = [] \<or> lon_bounds lib es = [])"
  then have cb: "collect_bounds lib es ([], []) = Inr (lat_bounds lib es, lon_bounds lib es)"
    using collect_bounds_ok[of es lib "[]" "[]"] by simp
  have hk: "has_key mmd ''mmd:geographic_extent''"
    using a getitem_has_key by blast
  show "produced (tosolr_geographic_extent lib mmd (lg, md)) =
            Some (md(''geographic_extent_rectangle_north'' \<mapsto> PFloat 90,
                     ''geographic_extent_rectangle_south'' \<mapsto> PFloat (- 90),
                     ''geographic_extent_rectangle_west'' \<mapsto> PFloat (- 180),
                     ''geographic_extent_rectangle_east'' \<mapsto> PFloat 180))"
    using a hk cb
    by (auto simp: tosolr_geographic_extent_def orraise_def geographic_extent_list_def produced_def)
qed

theorem world_extent_fallback_witness:
  "tosolr_geographic_extent demo_lib [(''mmd:title'', PStr ''A title'')] ([], Map.empty) =
     Inr ([], Map.empty)
   \<and> produced (tosolr_geographic_extent demo_lib
        [(''mmd:geographic_extent'', PList [rectangle PNone PNone PNone PNone,
                                            rectangle PNone PNone (PStr ''20'') (PStr ''10'')])]
        ([], Map.empty)) =
     Some [''geographic_extent_rectangle_north'' \<mapsto> PFloat 90,
           ''geographic_extent_rectangle_south'' \<mapsto> PFloat (- 90),
           ''geographic_extent_rectangle_west'' \<mapsto> PFloat (- 180),
           ''geographic_extent_rectangle_east'' \<mapsto> PFloat 180]"
proof -
  let ?es = "[rectangle PNone PNone PNone PNone, rectangle PNone PNone (PStr ''20'') (PStr ''10'')]"
  have ok: "\<forall>e\<in>set ?es. extent_ok demo_lib e"
    by (simp add: extent_ok_def bound_ok_def rect_bound_def rectangle_def andthen_def getitem_def
        py_float_def demo_lib_def demo_float_def)
  have lat: "lat_bounds demo_lib ?es = []"
    by (simp add: lat_bounds_def bound_val_def rect_bound_def rectangle_def andthen_def getitem_def)
  show ?thesis
    using world_extent_fallback[where mmd = "[(''mmd:title'', PStr ''A title'')]" and lib = demo_lib
        and lg = "[]" and md = Map.empty]
      world_extent_fallback[where mmd = "[(''mmd:geographic_extent'', PList ?es)]" and es = ?es
        and lib = demo_lib and lg = "[]" and md = Map.empty]
      ok lat
    by (simp add: has_key_def getitem_def)
qed

text \<open>
  C8, as the claim states it: with two rectangles that give latitude bounds (70/60 and
  80/65) but no longitude bound, north and south are not the maximum and the minimum
  of the latitude bounds but the world extent.
\<close>

theorem latitudes_without_longitudes:
  "field_of ''geographic_extent_rectangle_north''
     (produced (tosolr_geographic_extent demo_lib
        [(''mmd:geographic_extent'', PList [rectangle (PStr ''70'') (PStr ''60'') PNone PNone,
                                            rectangle (PStr ''80'') (PStr ''65'') PNone PNone])]
        ([], Map.empty))) = Some (PFloat 90)
   \<and> field_of ''geographic_extent_rectangle_south''
     (produced (tosolr_geographic_extent demo_lib
        [(''mmd:geographic_extent'', PList [rectangle (PStr ''70'') (PStr ''60'') PNone PNone,
                                            rectangle (PStr ''80'') (PStr ''65'') PNone PNone])]
        ([], Map.empty))) = Some (PFloat (- 90))"
  by (simp add: tosolr_geographic_extent_def has_key_def getitem_def rectangle_def orraise_def
      geographic_extent_list_def andthen_def py_float_def demo_lib_def demo_float_def
      append_bound_def rect_bound_def produced_def field_of_def)

lemma geographic_extent_list_box:
  assumes ok: "\<forall>e\<in>set es. extent_ok lib e"
    and lat: "lat_bounds lib es \<noteq> []" and lon: "lon_bounds lib es \<noteq> []"
    and last: "extent_complete lib (last es)"
  shows "\<exists>lg' md'. geographic_extent_list lib es (lg, md) = Inr (lg', md')
    \<and> md' ''geographic_extent_rectangle_north'' = Some (PFloat (Max (set (lat_bounds lib es))))
    \<and> md' ''geographic_extent_rectangle_south'' = Some (PFloat (Min (set (lat_bounds lib es))))
    \<and> md' ''geographic_extent_rectangle_east'' = Some (PFloat (Max (set (lon_bounds lib es))))
    \<and> md' ''geographic_extent_rectangle_west'' = Some (PFloat (Min (set (lon_bounds lib es))))"
proof -
  have cb: "collect_bounds lib es ([], []) = Inr (lat_bounds lib es, lon_bounds lib es)"
    using collect_bounds_ok[OF ok, of "[]" "[]"] by simp
  have fb: "float_bound lib (last es) ''mmd:north'' = Inr (hd (bound_val lib (last es) ''mmd:north''))"
    "float_bound lib (last es) ''mmd:south'' = Inr (hd (bound_val lib (last es) ''mmd:south''))"
    "float_bound lib (last es) ''mmd:east'' = Inr (hd (bound_val lib (last es) ''mmd:east''))"
    "float_bound lib (last es) ''mmd:west'' = Inr (hd (bound_val lib (last es) ''mmd:west''))"
    using last by (simp_all add: extent_complete_def float_bound_val)
  show ?thesis
    using lat lon
    by (simp add: geographic_extent_list_def orraise_def cb fb Let_def)
qed

text \<open>
  C8, amended. For a list of extents whose bounds are each \<open>None\<close> or a number, with at
  least one latitude bound and one longitude bound given and the last rectangle
  complete, the block returns, and north and south are the maximum and the minimum of
  the latitude bounds given, east and west those of the longitude bounds given.
\<close>

theorem smallest_enclosing_box:
  assumes "getitem mmd ''mmd:geographic_extent'' = Inr (PList es)"
    and "\<forall>e\<in>set es. extent_ok lib e"
    and "lat_bounds lib es \<noteq> []" and "lon_bounds lib es \<noteq> []"
    and "extent_complete lib (last es)"
  shows "\<exists>lg' md'. tosolr_geographic_extent lib mmd (lg, md) = Inr (lg', md')
    \<and> md' ''geographic_extent_rectangle_north'' = Some (PFloat (Max (set (lat_bounds lib es))))
    \<and> md' ''geographic_extent_rectangle_south'' = Some (PFloat (Min (set (lat_bounds lib es))))
    \<and> md' ''geographic_extent_rectangle_east'' = Some (PFloat (Max (set (lon_bounds lib es))))
    \<and> md' ''geographic_extent_rectangle_west'' = Some (PFloat (Min (set (lon_bounds lib es))))"
proof -
  have "tosolr_geographic_extent lib mmd (lg, md) = geographic_extent_list lib es (lg, md)"
    using assms(1) getitem_has_key[OF assms(1)]
    by (simp add: tosolr_geographic_extent_def orraise_def)
  then show ?thesis
    using geographic_extent_list_box[OF assms(2-5)] by simp
qed

theorem smallest_enclosing_box_witness:
  "field_of ''geographic_extent_rectangle_north''
     (produced (tosolr_geographic_extent demo_lib
        [(''mmd:geographic_extent'',
          PList [rectangle (PStr ''70'') (PStr ''60'') (PStr ''20'') (PStr ''10''),
                 rectangle (PStr ''80'') (PStr ''65'') (PStr ''25'') (PStr ''5'')])]
        ([], Map.empty))) = Some (PFloat 80)
   \<and> field_of ''geographic_extent_rectangle_south''
     (produced (tosolr_geographic_extent demo_lib
        [(''mmd:geographic_extent'',
          PList [rectangle (PStr ''70'') (PStr ''60'') (PStr ''20'') (PStr ''10''),
                 rectangle (PStr ''80'') (PStr ''65'') (PStr ''25'') (PStr ''5'')])]
        ([], Map.empty))) = Some (PFloat 60)
   \<and> field_of ''geographic_extent_rectangle_east''
     (produced (tosolr_geographic_extent demo_lib
        [(''mmd:geographic_extent'',
          PList [rectangle (PStr ''70'') (PStr ''60'') (PStr ''20'') (PStr ''10''),
                 rectangle (PStr ''80'') (PStr ''65'') (PStr ''25'') (PStr ''5'')])]
        ([], Map.empty))) = Some (PFloat 25)
   \<and> field_of ''geographic_extent_rectangle_west''
     (produced (tosolr_geographic_extent demo_lib
        [(''mmd:geographic_extent'',
          PList [rectangle (PStr ''70'') (PStr ''60'') (PStr ''20'') (PStr ''10''),
                 rectangle (PStr ''80'') (PStr ''65'') (PStr ''25'') (PStr ''5'')])]
        ([], Map.empty))) = Some (PFloat 5)"
proof -
  let ?es = "[rectangle (PStr ''70'') (PStr ''60'') (PStr ''20'') (PStr ''10''),
              rectangle (PStr ''80'') (PStr ''65'') (PStr ''25'') (PStr ''5'')]"
  have bv: "\<forall>e\<in>set ?es. bound_val demo_lib e ''mmd:north'' = (if e = ?es ! 0 then [70] else [80])
        \<and> bound_val demo_lib e ''mmd:south'' = (if e = ?es ! 0 then [60] else [65])
        \<and> bound_val demo_lib e ''mmd:east'' = (if e = ?es ! 0 then [20] else [25])
        \<and> bound_val demo_lib e ''mmd:west'' = (if e = ?es ! 0 then [10] else [5])"
    by (simp add: bound_val_def rect_bound_def rectangle_def andthen_def getitem_def
        py_float_def demo_lib_def demo_float_def)
  have ok: "\<forall>e\<in>set ?es. extent_ok demo_lib e"
    by (simp add: extent_ok_def bound_ok_def rect_bound_def rectangle_def andthen_def getitem_def
        py_float_def demo_lib_def demo_float_def)
  have lat: "lat_bounds demo_lib ?es = [70, 60, 80, 65]" and lon: "lon_bounds demo_lib ?es = [20, 10, 25, 5]"
    using bv by (simp_all add: lat_bounds_def lon_bounds_def rectangle_def)
  have last: "extent_complete demo_lib (last ?es)"
    using bv by (simp add: extent_complete_def)
  obtain lg' md' where
    "tosolr_geographic_extent demo_lib [(''mmd:geographic_extent'', PList ?es)] ([], Map.empty) = Inr (lg', md')"
    "md' ''geographic_extent_rectangle_north'' = Some (PFloat (Max (set (lat_bounds demo_lib ?es))))"
    "md' ''geographic_extent_rectangle_south'' = Some (PFloat (Min (set (lat_bounds demo_lib ?es))))"
    "md' ''geographic_extent_rectangle_east'' = Some (PFloat (Max (set (lon_bounds demo_lib ?es))))"
    "md' ''geographic_extent_rectangle_west'' = Some (PFloat (Min (set (lon_bounds demo_lib ?es))))"
    using smallest_enclosing_box[where mmd = "[(''mmd:geographic_extent'', PList ?es)]" and es = ?es
        and lib = demo_lib and lg = "[]" and md = Map.empty]
      ok last
    unfolding lat lon by (auto simp: getitem_def)
  then show ?thesis
    unfolding lat lon by (simp add: produced_def field_of_def)
qed

lemma has_key_getitem: "has_key d k \<Longrightarrow> getitem d k = Inr (the (map_of d k))"
  by (auto simp: has_key_def getitem_def)

lemma single_rectangle_geometry:
  assumes n: "getitem rect ''mmd:north'' = Inr (PStr sn)" "float_of lib sn = Some n"
    and s: "getitem rect ''mmd:south'' = Inr (PStr ss)" "float_of lib ss = Some s"
    and e: "getitem rect ''mmd:east'' = Inr (PStr se)" "float_of lib se = Some e"
    and w: "getitem rect ''mmd:west'' = Inr (PStr sw)" "float_of lib sw = Some w"
    and nonnull: "PNone \<notin> snd ` set rect"
  shows "\<exists>md'. geographic_extent_rectangle lib rect (lg, md) = Inr (lg, md')
    \<and> md' ''bbox'' = Some (PStr (''ENVELOPE('' @ sw @ '','' @ se @ '','' @ sn @ '','' @ ss @ '')''))
    \<and> md' ''polygon_rpt'' =
        (if s = n then (if e = w then Some (PStr (wkt lib (Point e n))) else md ''polygon_rpt'')
         else Some (PStr (wkt lib (box w s e n False))))"
proof -
  have "\<not> list_ex (\<lambda>item. getitem rect item = Inr PNone) (map fst rect)"
    using nonnull
    by (auto simp: list_ex_iff getitem_def split: option.splits dest!: map_of_SomeD intro: rev_image_eqI)
  then show ?thesis
    using n s e w
    by (simp add: geographic_extent_rectangle_def orraise_def andthen_def py_float_def str_plus_def
        Let_def has_key_getitem)
qed

text \<open>
  C7. A single rectangle with north = south = 60, east = 20 and west = 10 (a line along
  a parallel) gets its four bounds and its envelope, but no geometry at all: the
  polygon branch is the \<open>else\<close> of the test on the latitudes only, so equal latitudes
  with different longitudes fall through both branches. (A rectangle with equal
  latitudes and equal longitudes gets a point, one with different latitudes a polygon,
  and the envelope is as the claim says: see \<open>single_rectangle_geometry\<close>.)
\<close>

theorem line_extent_no_geometry:
  "tosolr_geographic_extent demo_lib
     [(''mmd:geographic_extent'', rectangle (PStr ''60'') (PStr ''60'') (PStr ''20'') (PStr ''10''))]
     ([], Map.empty) =
   Inr ([], [''geographic_extent_rectangle_north'' \<mapsto> PTuple [PFloat 60],
             ''geographic_extent_rectangle_south'' \<mapsto> PTuple [PFloat 60],
             ''geographic_extent_rectangle_east'' \<mapsto> PTuple [PFloat 20],
             ''geographic_extent_rectangle_west'' \<mapsto> PTuple [PFloat 10],
             ''bbox'' \<mapsto> PStr ''ENVELOPE(10,20,60,60)''])
   \<and> field_of ''polygon_rpt'' (produced (tosolr_geographic_extent demo_lib
        [(''mmd:geographic_extent'', rectangle (PStr ''60'') (PStr ''60'') (PStr ''20'') (PStr ''10''))]
        ([], Map.empty))) = None"
  by (simp add: tosolr_geographic_extent_def has_key_def getitem_def rectangle_def orraise_def
      geographic_extent_rectangle_def andthen_def py_float_def demo_lib_def demo_float_def
      str_plus_def produced_def field_of_def)

subsection \<open>\<open>index_record\<close>\<close>

lemma feature_type_step_added: "added (fst (feature_type_step env s)) = added s"
  by (simp add: feature_type_step_def logs_def logmsg_def setfield_def Let_def
      split: option.splits prod.splits sum.splits)

lemma feature_type_step_record:
  "k \<noteq> ''feature_type'' \<Longrightarrow> the_record (fst (feature_type_step env s)) k = the_record s k"
  by (simp add: feature_type_step_def logs_def logmsg_def setfield_def Let_def
      split: option.splits prod.splits sum.splits)

lemma feature_type_step_log:
  "\<exists>es. the_log (fst (feature_type_step env s)) = the_log s @ es"
  by (auto simp: feature_type_step_def logs_def logmsg_def setfield_def Let_def
      split: option.splits prod.splits sum.splits)

lemma record_thumbnail_added: "added (record_thumbnail env addThumbnail s) = added s"
  by (simp add: record_thumbnail_def logs_def logmsg_def setfield_def Let_def
      split: option.splits prod.splits)

lemma record_thumbnail_record:
  "k \<noteq> ''thumbnail_data'' \<Longrightarrow> k \<noteq> ''data_access_url_ogc_wms'' \<Longrightarrow>
   the_record (record_thumbnail env addThumbnail s) k = the_record s k"
  by (simp add: record_thumbnail_def logs_def logmsg_def setfield_def Let_def
      split: option.splits prod.splits)

lemma record_thumbnail_log:
  "\<exists>es. the_log (record_thumbnail env addThumbnail s) = the_log s @ es"
  by (auto simp: record_thumbnail_def logs_def logmsg_def setfield_def Let_def
      split: option.splits prod.splits)

lemma add_record_cases:
  assumes "add_record env s = (s', r)"
  shows "the_record s' = the_record s"
    and "\<exists>es. the_log s' = the_log s @ es"
    and "solrc_add env (added s) [the_record s] = None \<Longrightarrow>
           r = Inr True \<and> added s' = added s @ [[the_record s]]"
    and "solrc_add env (added s) [the_record s] \<noteq> None \<Longrightarrow> r = Inr False \<and> added s' = added s"
  using assms by (auto simp: add_record_def logmsg_def Let_def split: option.splits)

text \<open>
  C10. With a level other than 1, 2 and \<open>None\<close>, on a record that has an id and a
  status other than \<open>Inactive\<close>, \<open>index_record\<close> logs the error and goes on: it does not
  raise, it leaves \<open>dataset_type\<close> and \<open>isParent\<close> as they were in the record (absent, if
  they were), and it hands the record to \<open>solrc.add\<close>; it returns \<open>True\<close> with the record
  added when the \<open>add\<close> succeeds, \<open>False\<close> with nothing added when it fails.
\<close>

theorem invalid_level_still_indexed:
  assumes "lvl \<noteq> None" "lvl \<noteq> Some 1" "lvl \<noteq> Some 2"
    and "the_record s ''metadata_status'' = Some status" "status \<noteq> PStr ''Inactive''"
    and "the_record s ''id'' = Some ident"
    and "index_record env addThumbnail lvl s = (s', r)"
  shows "(ERROR, ''Invalid level given: {}. Hence terminating'') \<in> set (the_log s')
    \<and> the_record s' ''dataset_type'' = the_record s ''dataset_type''
    \<and> the_record s' ''isParent'' = the_record s ''isParent''
    \<and> (solrc_add env (added s) [the_record s'] = None \<longrightarrow>
         r = Inr True \<and> added s' = added s @ [[the_record s']])
    \<and> (solrc_add env (added s) [the_record s'] \<noteq> None \<longrightarrow> r = Inr False \<and> added s' = added s)"
proof -
  define s1 where "s1 = set_level lvl s"
  define s2 where "s2 = fst (feature_type_step env s1)"
  define s3 where "s3 = record_thumbnail env addThumbnail s2"
  have s1: "s1 = logmsg ERROR ''Invalid level given: {}. Hence terminating'' s"
    using assms(1-3) by (auto simp: s1_def set_level_def)
  have rec1: "the_record s1 = the_record s" and add1: "added s1 = added s"
    and log1: "the_log s1 = the_log s @ [(ERROR, ''Invalid level given: {}. Hence terminating'')]"
    by (simp_all add: s1 logmsg_def)
  have rec2: "the_record s2 ''metadata_status'' = Some status" "the_record s2 ''id'' = Some ident"
    "the_record s2 ''dataset_type'' = the_record s ''dataset_type''"
    "the_record s2 ''isParent'' = the_record s ''isParent''"
    using assms(4,6) by (simp_all add: s2_def feature_type_step_record rec1)
  have rec3: "the_record s3 ''dataset_type'' = the_record s ''dataset_type''"
    "the_record s3 ''isParent'' = the_record s ''isParent''"
    using rec2 by (simp_all add: s3_def record_thumbnail_record)
  have add3: "added s3 = added s"
    by (simp add: s3_def s2_def record_thumbnail_added feature_type_step_added add1)
  obtain es2 where "the_log s2 = the_log s1 @ es2"
    using feature_type_step_log[of env s1] by (auto simp: s2_def)
  moreover obtain es3 where "the_log s3 = the_log s2 @ es3"
    using record_thumbnail_log[of env addThumbnail s2] by (auto simp: s3_def)
  ultimately have log3: "(ERROR, ''Invalid level given: {}. Hence terminating'') \<in> set (the_log s3)"
    by (simp add: log1)
  obtain myfeature where fts: "feature_type_step env s1 = (s2, myfeature)"
    by (cases "feature_type_step env s1") (simp add: s2_def)
  have run: "add_record env s3 = (s', r)"
    using assms(7) assms(4,5) rec1 rec2(2)
    by (simp add: index_record_def s1_def[symmetric] fts s3_def[symmetric] Let_def)
  note ar = add_record_cases[OF run]
  obtain es where "the_log s' = the_log s3 @ es"
    using ar(2) by blast
  then have "(ERROR, ''Invalid level given: {}. Hence terminating'') \<in> set (the_log s')"
    using log3 by simp
  then show ?thesis
    using ar(1,3,4) rec3 add3 by simp
qed

theorem invalid_level_still_indexed_witness:
  "index_record demo_env False (Some 3)
     \<lparr>the_log = [], added = [],
      the_record = [''id'' \<mapsto> PStr ''no-met-abc'', ''metadata_status'' \<mapsto> PStr ''Active'']\<rparr> =
   (\<lparr>the_log = [(ERROR, ''Invalid level given: {}. Hence terminating''),
                (INFO, ''Adding records to core...''), (INFO, ''Record successfully added.'')],
      added = [[[''id'' \<mapsto> PStr ''no-met-abc'', ''metadata_status'' \<mapsto> PStr ''Active'']]],
      the_record = [''id'' \<mapsto> PStr ''no-met-abc'', ''metadata_status'' \<mapsto> PStr ''Active'']\<rparr>,
    Inr True)"
proof -
  let ?s = "\<lparr>the_log = [], added = [],
      the_record = [''id'' \<mapsto> PStr ''no-met-abc'', ''metadata_status'' \<mapsto> PStr ''Active'']\<rparr>"
  obtain s' r where run: "index_record demo_env False (Some 3) ?s = (s', r)"
    by (cases "index_record demo_env False (Some 3) ?s") blast
  have "(ERROR, ''Invalid level given: {}. Hence terminating'') \<in> set (the_log s')
    \<and> the_record s' ''dataset_type'' = the_record ?s ''dataset_type''
    \<and> the_record s' ''isParent'' = the_record ?s ''isParent''
    \<and> (solrc_add demo_env (added ?s) [the_record s'] = None \<longrightarrow>
         r = Inr True \<and> added s' = added ?s @ [[the_record s']])
    \<and> (solrc_add demo_env (added ?s) [the_record s'] \<noteq> None \<longrightarrow> r = Inr False \<and> added s' = added ?s)"
    by (rule invalid_level_still_indexed[OF _ _ _ _ _ _ run, of "PStr ''Active''" "PStr ''no-met-abc''"])
      simp_all
  then have "r = Inr True"
    by (simp add: demo_env_def)
  then show ?thesis
    using run
    by (simp add: index_record_def set_level_def logmsg_def feature_type_step_def
        record_thumbnail_def add_record_def demo_env_def Let_def)
qed

subsection \<open>\<open>add_level2\<close>\<close>

lemma level2_thumbnail_added: "added (fst (level2_thumbnail env addThumbnail s)) = added s"
  by (simp add: level2_thumbnail_def logs_def logmsg_def setfield_def Let_def
      split: option.splits prod.splits)

lemma level2_thumbnail_record:
  "k \<noteq> ''thumbnail_data'' \<Longrightarrow>
   the_record (fst (level2_thumbnail env addThumbnail s)) k = the_record s k"
  by (simp add: level2_thumbnail_def logs_def logmsg_def setfield_def Let_def
      split: option.splits prod.splits)

lemma level2_thumbnail_returns:
  "addThumbnail \<longrightarrow> the_record s ''data_access_url_ogc_wms'' \<noteq> None \<Longrightarrow>
   snd (level2_thumbnail env addThumbnail s) = Inr ()"
  by (auto simp: level2_thumbnail_def Let_def split: option.splits prod.splits)

lemma write_both_cases:
  assumes "write_both env parent s = (s', r)"
  shows "r = Inr () \<Longrightarrow> added s' = added s @ [[the_record s], [parent]]"
    and "added s' = added s \<or> added s' = added s @ [[the_record s]]
         \<or> added s' = added s @ [[the_record s], [parent]]"
    and "the_record s' = the_record s"
  using assms
  by (auto simp: write_both_def logmsg_def Let_def split: option.splits)

text \<open>What a call of \<open>link_to_parent\<close> that has written something must have found.\<close>

lemma link_to_parent_written:
  assumes "link_to_parent env rd s = (s', r)" and "added s' \<noteq> added s"
  shows "\<exists>p es parent. solrc_search env (added s) (''id:'' @ sanitize rd) = Inr [p]
           \<and> update_parent (the_record s) p = (es, Inr parent)
           \<and> (r = Inr () \<longrightarrow> added s' = added s @ [[the_record s], [parent]])"
proof (cases "solrc_search env (added s) (''id:'' @ sanitize rd)")
  case (Inl e)
  then show ?thesis
    using assms by (auto simp: link_to_parent_def logmsg_def)
next
  case (Inr myresults)
  show ?thesis
  proof (cases "length myresults = 1")
    case False
    then show ?thesis
      using assms Inr by (auto simp: link_to_parent_def logmsg_def)
  next
    case True
    then obtain p where p: "myresults = [p]"
      by (cases myresults) auto
    obtain es u where up: "update_parent (the_record s) p = (es, u)"
      by (cases "update_parent (the_record s) p") blast
    show ?thesis
    proof (cases u)
      case (Inl e)
      then show ?thesis
        using assms Inr p up by (auto simp: link_to_parent_def logs_def)
    next
      case (Inr parent)
      have wb: "write_both env parent (logs es s) = (s', r)"
        using assms(1) \<open>solrc_search env (added s) (''id:'' @ sanitize rd) = Inr myresults\<close> p up Inr
        by (simp add: link_to_parent_def)
      have "r = Inr () \<longrightarrow> added s' = added s @ [[the_record s], [parent]]"
        using write_both_cases(1)[OF wb] by (simp add: logs_def)
      then show ?thesis
        using \<open>solrc_search env (added s) (''id:'' @ sanitize rd) = Inr myresults\<close> p up Inr by simp
    qed
  qed
qed

lemma link_to_parent_skipped:
  assumes "solrc_search env (added s) (''id:'' @ sanitize rd) = Inr rs" and "length rs \<noteq> 1"
  shows "link_to_parent env rd s =
           (logmsg WARNING ''Didn't find unique parent record, skipping record'' s, Inr ())"
  using assms by (simp add: link_to_parent_def)

text \<open>
  The steps of \<open>add_level2\<close> before the search: when they all pass, the call is
  \<open>link_to_parent\<close> on a state with the same documents added, and a record that differs
  from the one passed in only in \<open>related_dataset\<close>, \<open>isChild\<close>, \<open>feature_type\<close> and
  \<open>thumbnail_data\<close>.
\<close>

lemma add_level2_reaches_search:
  assumes "add_level2 env addThumbnail s = (s', r)" and "added s' \<noteq> added s \<or> r = Inr ()"
  shows "\<exists>rd0 rd s3. the_record s ''related_dataset'' = Some rd0 \<and> npi_fix rd0 = Inr rd
           \<and> added s3 = added s
           \<and> the_record s3 ''metadata_identifier'' = the_record s ''metadata_identifier''
           \<and> link_to_parent env rd s3 = (s', r)"
proof (cases "the_record s ''related_dataset''")
  case None
  then show ?thesis
    using assms by (auto simp: add_level2_def)
next
  case (Some rd0)
  show ?thesis
  proof (cases "npi_fix rd0")
    case (Inl e)
    then show ?thesis
      using assms Some by (auto simp: add_level2_def)
  next
    case (Inr rd)
    define s1 where
      "s1 = setfield ''isChild'' (PStr ''true'') (setfield ''related_dataset'' (PStr rd) s)"
    obtain s2 myfeature where fts: "feature_type_step env s1 = (s2, myfeature)"
      by (cases "feature_type_step env s1") blast
    obtain s3 t where th: "level2_thumbnail env addThumbnail s2 = (s3, t)"
      by (cases "level2_thumbnail env addThumbnail s2") blast
    have add2: "added s2 = added s"
      using feature_type_step_added[of env s1] fts by (simp add: s1_def setfield_def)
    have add3: "added s3 = added s"
      using level2_thumbnail_added[of env addThumbnail s2] th add2 by simp
    have mi2: "the_record s2 ''metadata_identifier'' = the_record s ''metadata_identifier''"
      using feature_type_step_record[of "''metadata_identifier''" env s1] fts
      by (simp add: s1_def setfield_def)
    have mi3: "the_record s3 ''metadata_identifier'' = the_record s ''metadata_identifier''"
      using level2_thumbnail_record[of "''metadata_identifier''" env addThumbnail s2] th mi2 by simp
    have unfolded: "add_level2 env addThumbnail s =
        (case the_record s2 ''id'' of
           None \<Rightarrow> (s2, Inl (KeyError ''id''))
         | Some ident \<Rightarrow>
             (case t of Inl e \<Rightarrow> (s3, Inl e) | Inr u \<Rightarrow> link_to_parent env rd s3))"
      using Some Inr fts th
      by (simp add: add_level2_def s1_def[symmetric] split: option.splits sum.splits)
    have "link_to_parent env rd s3 = (s', r)"
      using assms unfolded add2 add3
      by (auto split: option.splits sum.splits)
    then show ?thesis
      using Some Inr add3 mi3 by blast
  qed
qed

text \<open>
  C6. \<open>add_level2\<close> adds a document to the core only if the query for the parent has
  answered with exactly one document. When the record has a parent reference, an id
  and, if a thumbnail is asked for, a WMS url, and the query answers with no document
  or with several, the call logs the warning, returns without raising and adds
  nothing.
\<close>

theorem no_write_without_unique_parent:
  "(added (fst (add_level2 env addThumbnail s)) \<noteq> added s \<longrightarrow>
      (\<exists>q p. parent_query (the_record s) = Inr q \<and> solrc_search env (added s) q = Inr [p]))
   \<and> (parent_query (the_record s) = Inr q \<and> solrc_search env (added s) q = Inr rs
        \<and> length rs \<noteq> 1 \<and> the_record s ''id'' \<noteq> None
        \<and> (addThumbnail \<longrightarrow> the_record s ''data_access_url_ogc_wms'' \<noteq> None) \<longrightarrow>
      snd (add_level2 env addThumbnail s) = Inr ()
      \<and> added (fst (add_level2 env addThumbnail s)) = added s
      \<and> (WARNING, ''Didn't find unique parent record, skipping record'')
           \<in> set (the_log (fst (add_level2 env addThumbnail s))))"
proof (intro conjI impI)
  obtain s' r where run: "add_level2 env addThumbnail s = (s', r)"
    by (cases "add_level2 env addThumbnail s") blast
  assume "added (fst (add_level2 env addThumbnail s)) \<noteq> added s"
  then have ch: "added s' \<noteq> added s"
    by (simp add: run)
  then obtain rd0 rd s3 where
    h: "the_record s ''related_dataset'' = Some rd0" "npi_fix rd0 = Inr rd" "added s3 = added s"
      "link_to_parent env rd s3 = (s', r)"
    using add_level2_reaches_search[OF run] by blast
  from link_to_parent_written[OF h(4)] ch h(3)
  obtain p where "solrc_search env (added s) (''id:'' @ sanitize rd) = Inr [p]"
    by auto
  then show "\<exists>q p. parent_query (the_record s) = Inr q \<and> solrc_search env (added s) q = Inr [p]"
    using h(1,2) by (simp add: parent_query_def andthen_def)
next
  assume a: "parent_query (the_record s) = Inr q \<and> solrc_search env (added s) q = Inr rs
        \<and> length rs \<noteq> 1 \<and> the_record s ''id'' \<noteq> None
        \<and> (addThumbnail \<longrightarrow> the_record s ''data_access_url_ogc_wms'' \<noteq> None)"
  then obtain rd0 rd where rd: "the_record s ''related_dataset'' = Some rd0" "npi_fix rd0 = Inr rd"
    "q = ''id:'' @ sanitize rd"
    by (auto simp: parent_query_def andthen_def split: option.splits sum.splits)
  define s1 where
    "s1 = setfield ''isChild'' (PStr ''true'') (setfield ''related_dataset'' (PStr rd) s)"
  obtain s2 myfeature where fts: "feature_type_step env s1 = (s2, myfeature)"
    by (cases "feature_type_step env s1") blast
  obtain s3 t where th: "level2_thumbnail env addThumbnail s2 = (s3, t)"
    by (cases "level2_thumbnail env addThumbnail s2") blast
  have add2: "added s2 = added s"
    using feature_type_step_added[of env s1] fts by (simp add: s1_def setfield_def)
  have add3: "added s3 = added s"
    using level2_thumbnail_added[of env addThumbnail s2] th add2 by simp
  have id2: "the_record s2 ''id'' = the_record s ''id''"
    using feature_type_step_record[of "''id''" env s1] fts by (simp add: s1_def setfield_def)
  have wms2: "the_record s2 ''data_access_url_ogc_wms'' = the_record s ''data_access_url_ogc_wms''"
    using feature_type_step_record[of "''data_access_url_ogc_wms''" env s1] fts
    by (simp add: s1_def setfield_def)
  have t: "t = Inr ()"
    using level2_thumbnail_returns[of addThumbnail s2 env] a wms2 th by simp
  have "add_level2 env addThumbnail s = link_to_parent env rd s3"
    using rd fts th t a id2
    by (auto simp: add_level2_def s1_def[symmetric] split: option.splits sum.splits)
  then have res: "add_level2 env addThumbnail s =
      (logmsg WARNING ''Didn't find unique parent record, skipping record'' s3, Inr ())"
    using link_to_parent_skipped[of env s3 rd rs] a rd(3) add3 by simp
  show "snd (add_level2 env addThumbnail s) = Inr ()"
    by (simp add: res)
  show "added (fst (add_level2 env addThumbnail s)) = added s"
    by (simp add: res logmsg_def add3)
  show "(WARNING, ''Didn't find unique parent record, skipping record'')
           \<in> set (the_log (fst (add_level2 env addThumbnail s)))"
    by (simp add: res logmsg_def)
qed

lemma demo_parent_query: "parent_query demo_child = Inr ''id:no-met-parent''"
  by (simp add: parent_query_def demo_child_def npi_fix_def py_replace_def replace_str_def
      andthen_def sanitize_def idrepls_def)

lemma demo_child_reference: "child_reference demo_child = Inr ''no.met_child''"
  by (simp add: child_reference_def demo_child_def py_replace_def replace_str_def)

theorem no_write_without_unique_parent_witness:
  "snd (add_level2 demo_env False \<lparr>the_log = [], added = [], the_record = demo_child\<rparr>) = Inr ()
   \<and> added (fst (add_level2 demo_env False \<lparr>the_log = [], added = [], the_record = demo_child\<rparr>)) = []
   \<and> (WARNING, ''Didn't find unique parent record, skipping record'')
        \<in> set (the_log (fst (add_level2 demo_env False
                   \<lparr>the_log = [], added = [], the_record = demo_child\<rparr>)))"
  using no_write_without_unique_parent[where env = demo_env and addThumbnail = False
      and s = "\<lparr>the_log = [], added = [], the_record = demo_child\<rparr>" and q = "''id:no-met-parent''"
      and rs = "[]", THEN conjunct2]
  by (simp add: demo_parent_query) (simp add: demo_env_def demo_search_def demo_child_def)

lemma child_reference_cong:
  "c ''metadata_identifier'' = c' ''metadata_identifier'' \<Longrightarrow> child_reference c = child_reference c'"
  by (simp add: child_reference_def)

lemma update_parent_cong:
  "child_reference c = child_reference c' \<Longrightarrow> update_parent c result = update_parent c' result"
  by (simp add: update_parent_def Let_def split: option.splits)

lemma strip_internal_related [simp]:
  "strip_internal result ''related_dataset'' = result ''related_dataset''"
  by (simp add: strip_internal_def)

text \<open>The child list of the parent that \<open>update_parent\<close> returns.\<close>

lemma update_parent_once:
  assumes "update_parent c p = (es, Inr w)" and "child_reference c = Inr cid"
    and "p ''related_dataset'' = None
         \<or> (\<exists>xs. p ''related_dataset'' = Some (PList xs) \<and> count_list xs (PStr cid) \<le> 1)"
  shows "\<exists>xs. w ''related_dataset'' = Some (PList xs) \<and> count_list xs (PStr cid) = 1"
proof (cases "p ''related_dataset''")
  case None
  then show ?thesis
    using assms(1,2)
    by (auto simp: update_parent_def Let_def split: if_splits)
next
  case (Some rd)
  then obtain xs where xs: "rd = PList xs" "count_list xs (PStr cid) \<le> 1"
    using assms(3) by auto
  show ?thesis
  proof (cases "PStr cid \<in> set xs")
    case True
    then have "count_list xs (PStr cid) = 1"
      using xs(2) count_list_0_iff[of xs "PStr cid"] by linarith
    then show ?thesis
      using assms(1,2) Some xs(1) True
      by (auto simp: update_parent_def Let_def andthen_def split: if_splits)
  next
    case False
    then have "count_list (xs @ [PStr cid]) (PStr cid) = 1"
      by (simp add: count_list_0_iff)
    then show ?thesis
      using assms(1,2) Some xs(1) False
      by (auto simp: update_parent_def Let_def andthen_def py_append_def split: if_splits)
  qed
qed

lemma update_parent_again:
  assumes "update_parent c p = (es, Inr w)" and "child_reference c = Inr cid"
    and "p ''related_dataset'' = Some (PList xs)" and "PStr cid \<in> set xs"
  shows "w ''related_dataset'' = Some (PList xs)"
  using assms
  by (auto simp: update_parent_def Let_def andthen_def split: if_splits)

lemma link_to_parent_linked:
  assumes "solrc_search env (added s) (''id:'' @ sanitize rd) = Inr [p]"
    and "link_to_parent env rd s = (s', Inr ())"
  shows "\<exists>es w. update_parent (the_record s) p = (es, Inr w)
           \<and> added s' = added s @ [[the_record s], [w]]"
proof -
  obtain es u where up: "update_parent (the_record s) p = (es, u)"
    by (cases "update_parent (the_record s) p") blast
  show ?thesis
  proof (cases u)
    case (Inl e)
    then show ?thesis
      using assms up by (auto simp: link_to_parent_def logs_def)
  next
    case (Inr w)
    have wb: "write_both env w (logs es s) = (s', Inr ())"
      using assms up Inr by (simp add: link_to_parent_def)
    show ?thesis
      using write_both_cases(1)[OF wb] up Inr by (simp add: logs_def)
  qed
qed

text \<open>A call of \<open>add_level2\<close> that returns after its query has found one document.\<close>

lemma add_level2_linked:
  assumes "parent_query (the_record s) = Inr q" and "solrc_search env (added s) q = Inr [p]"
    and "add_level2 env addThumbnail s = (s', Inr ())"
  shows "\<exists>c es w ch. update_parent c p = (es, Inr w)
           \<and> child_reference c = child_reference (the_record s)
           \<and> added s' = added s @ [[ch], [w]]"
proof -
  obtain rd0 rd s3 where
    h: "the_record s ''related_dataset'' = Some rd0" "npi_fix rd0 = Inr rd" "added s3 = added s"
      "the_record s3 ''metadata_identifier'' = the_record s ''metadata_identifier''"
      "link_to_parent env rd s3 = (s', Inr ())"
    using add_level2_reaches_search[OF assms(3)] by blast
  have "q = ''id:'' @ sanitize rd"
    using assms(1) h(1,2) by (simp add: parent_query_def andthen_def)
  then have "solrc_search env (added s3) (''id:'' @ sanitize rd) = Inr [p]"
    using assms(2) h(3) by simp
  from link_to_parent_linked[OF this h(5)] obtain es w where
    "update_parent (the_record s3) p = (es, Inr w)" "added s' = added s3 @ [[the_record s3], [w]]"
    by blast
  then show ?thesis
    using child_reference_cong[of "the_record s3" "the_record s"] h(3,4) by metis
qed

text \<open>
  C2. A child is linked twice to the same parent: the first call finds the parent
  \<open>p0\<close>, whose child list is absent or holds the child's reference at most once, and
  writes the child and the updated parent; the second call, for a record with the same
  \<open>metadata_identifier\<close>, finds a document \<open>p1\<close> that carries the child list the first
  call wrote. Then the second call writes a parent with the same child list, and the
  child's reference (its \<open>metadata_identifier\<close> with \<open>:\<close> replaced by \<open>_\<close>) is in that list
  exactly once.
\<close>

theorem child_link_twice:
  assumes "child_reference (the_record s) = Inr cid"
    and "parent_query (the_record s) = Inr q"
    and "solrc_search env (added s) q = Inr [p0]"
    and "p0 ''related_dataset'' = None
         \<or> (\<exists>xs. p0 ''related_dataset'' = Some (PList xs) \<and> count_list xs (PStr cid) \<le> 1)"
    and "add_level2 env addThumbnail s = (s1, Inr ())"
    and "child_reference c' = Inr cid"
    and "parent_query c' = Inr q'"
    and "solrc_search env (added s1) q' = Inr [p1]"
    and "\<forall>c1 w1. added s1 = added s @ [[c1], [w1]] \<longrightarrow> p1 ''related_dataset'' = w1 ''related_dataset''"
    and "add_level2 env addThumbnail' (s1\<lparr>the_record := c'\<rparr>) = (s2, Inr ())"
  shows "\<exists>c1 w1 c2 w2 xs.
           added s1 = added s @ [[c1], [w1]] \<and> added s2 = added s1 @ [[c2], [w2]]
         \<and> w1 ''related_dataset'' = Some (PList xs) \<and> w2 ''related_dataset'' = Some (PList xs)
         \<and> count_list xs (PStr cid) = 1"
proof -
  obtain c es w1 c1 where
    one: "update_parent c p0 = (es, Inr w1)" "child_reference c = child_reference (the_record s)"
      "added s1 = added s @ [[c1], [w1]]"
    using add_level2_linked[OF assms(2,3,5)] by blast
  obtain xs where xs: "w1 ''related_dataset'' = Some (PList xs)" "count_list xs (PStr cid) = 1"
    using update_parent_once[OF one(1) _ assms(4)] one(2) assms(1) by auto
  have p1: "p1 ''related_dataset'' = Some (PList xs)"
    using assms(9) one(3) xs(1) by simp
  have mem: "PStr cid \<in> set xs"
    using xs(2) count_list_0_iff[of xs "PStr cid"] by auto
  obtain d es' w2 c2 where
    two: "update_parent d p1 = (es', Inr w2)" "child_reference d = child_reference c'"
      "added s2 = added s1 @ [[c2], [w2]]"
    using add_level2_linked[of "s1\<lparr>the_record := c'\<rparr>" q' env p1 addThumbnail' s2]
      assms(7,8,10) by auto
  have "w2 ''related_dataset'' = Some (PList xs)"
    using update_parent_again[OF two(1) _ p1 mem] two(2) assms(6) by simp
  then show ?thesis
    using one(3) two(3) xs by blast
qed

lemma demo_first_link:
  "add_level2 demo_env False \<lparr>the_log = [], added = [[demo_parent]], the_record = demo_child\<rparr> =
     (\<lparr>the_log = [(INFO, ''This dataset was not found in parent, creating it...''),
                  (INFO, ''Adding dataset with identifier %s to parent %s'')] @ demo_linked_log,
        added = [[demo_parent], [demo_child_linked], [demo_parent_linked]],
        the_record = demo_child_linked\<rparr>, Inr ())"
  by (simp add: demo_env_def demo_search_def has_id_def demo_child_def demo_parent_def
      demo_child_linked_def demo_parent_linked_def demo_linked_log_def
      add_level2_def npi_fix_def py_replace_def replace_str_def andthen_def
      setfield_def feature_type_step_def level2_thumbnail_def link_to_parent_def sanitize_def
      idrepls_def update_parent_def strip_internal_def child_reference_def write_both_def logs_def
      logmsg_def py_append_def Let_def)

lemma demo_second_link:
  "add_level2 demo_env False
     \<lparr>the_log = lg, added = [[demo_parent], [demo_child_linked], [demo_parent_linked]],
      the_record = demo_child\<rparr> =
     (\<lparr>the_log = lg @ demo_linked_log,
        added = [[demo_parent], [demo_child_linked], [demo_parent_linked],
                 [demo_child_linked], [demo_parent_linked(''isParent'' \<mapsto> PStr ''true'')]],
        the_record = demo_child_linked\<rparr>, Inr ())"
  by (simp add: demo_env_def demo_search_def has_id_def demo_child_def demo_parent_def
      demo_child_linked_def demo_parent_linked_def demo_linked_log_def
      add_level2_def npi_fix_def py_replace_def replace_str_def andthen_def
      setfield_def feature_type_step_def level2_thumbnail_def link_to_parent_def sanitize_def
      idrepls_def update_parent_def strip_internal_def child_reference_def write_both_def logs_def
      logmsg_def py_append_def Let_def)

theorem child_link_twice_witness:
  "\<exists>c1 w1 c2 w2 xs.
     added (fst (add_level2 demo_env False
                   \<lparr>the_log = [], added = [[demo_parent]], the_record = demo_child\<rparr>)) =
       [[demo_parent]] @ [[c1], [w1]]
   \<and> added (fst (add_level2 demo_env False
                   ((fst (add_level2 demo_env False
                            \<lparr>the_log = [], added = [[demo_parent]], the_record = demo_child\<rparr>))
                      \<lparr>the_record := demo_child\<rparr>))) =
       added (fst (add_level2 demo_env False
                   \<lparr>the_log = [], added = [[demo_parent]], the_record = demo_child\<rparr>)) @ [[c2], [w2]]
   \<and> w1 ''related_dataset'' = Some (PList xs) \<and> w2 ''related_dataset'' = Some (PList xs)
   \<and> count_list xs (PStr ''no.met_child'') = 1"
proof -
  let ?s = "\<lparr>the_log = [], added = [[demo_parent]], the_record = demo_child\<rparr>"
  let ?s1 = "fst (add_level2 demo_env False ?s)"
  let ?s2 = "fst (add_level2 demo_env False (?s1\<lparr>the_record := demo_child\<rparr>))"
  have h3: "solrc_search demo_env (added ?s) ''id:no-met-parent'' = Inr [demo_parent(''_version_'' \<mapsto> PFloat 1)]"
    by (simp add: demo_env_def demo_search_def has_id_def demo_parent_def)
  have h4: "(demo_parent(''_version_'' \<mapsto> PFloat 1)) ''related_dataset'' = None
      \<or> (\<exists>xs. (demo_parent(''_version_'' \<mapsto> PFloat 1)) ''related_dataset'' = Some (PList xs)
               \<and> count_list xs (PStr ''no.met_child'') \<le> 1)"
    by (simp add: demo_parent_def)
  have h5: "add_level2 demo_env False ?s = (?s1, Inr ())"
    by (simp add: demo_first_link)
  have h8: "solrc_search demo_env (added ?s1) ''id:no-met-parent'' =
      Inr [demo_parent_linked(''_version_'' \<mapsto> PFloat 1)]"
    by (simp add: demo_first_link) (simp add: demo_env_def demo_search_def has_id_def demo_parent_def
        demo_child_linked_def demo_parent_linked_def)
  have h9: "\<forall>c1 w1. added ?s1 = added ?s @ [[c1], [w1]] \<longrightarrow>
      (demo_parent_linked(''_version_'' \<mapsto> PFloat 1)) ''related_dataset'' = w1 ''related_dataset''"
    by (simp add: demo_first_link)
  have h10: "add_level2 demo_env False (?s1\<lparr>the_record := demo_child\<rparr>) = (?s2, Inr ())"
    by (simp add: demo_first_link demo_second_link)
  show ?thesis
    using child_link_twice[where s = ?s and cid = "''no.met_child''" and q = "''id:no-met-parent''"
        and env = demo_env and ?p0.0 = "demo_parent(''_version_'' \<mapsto> PFloat 1)"
        and addThumbnail = False and ?s1.0 = ?s1 and c' = demo_child and q' = "''id:no-met-parent''"
        and ?p1.0 = "demo_parent_linked(''_version_'' \<mapsto> PFloat 1)" and addThumbnail' = False
        and ?s2.0 = ?s2, OF _ _ h3 h4 h5 _ _ h8 h9 h10]
    by (simp add: demo_child_reference demo_parent_query)
qed

subsection \<open>Flattening of repeated groups\<close>

lemma flen_update:
  "flen (md(k \<mapsto> PList xs)) f = (if f = k then length xs else flen md f)"
  by (simp add: flen_def)

lemma append_arg_InrD:
  assumes "append_arg k arg md = Inr md'"
  shows "\<exists>xs v. md k = Some (PList xs) \<and> arg = Inr v \<and> md' = md(k \<mapsto> PList (xs @ [v]))"
proof (cases "md k")
  case None
  then show ?thesis using assms by (simp add: append_arg_def)
next
  case (Some l)
  show ?thesis
  proof (cases l)
    case (PList xs)
    then show ?thesis
      using assms Some by (cases arg) (auto simp: append_arg_def andthen_def)
  qed (use assms Some in \<open>simp_all add: append_arg_def\<close>)
qed

lemma append_arg_flen:
  assumes "append_arg k arg md = Inr md'"
  shows "flen md' f = flen md f + (if f = k then 1 else 0)"
proof -
  obtain xs v where "md k = Some (PList xs)" "md' = md(k \<mapsto> PList (xs @ [v]))"
    using append_arg_InrD[OF assms] by blast
  then show ?thesis
    by (simp add: flen_def)
qed

lemma append_arg_returns:
  assumes "md k = Some (PList xs)"
  shows "append_arg k (Inr v) md = Inr (md(k \<mapsto> PList (xs @ [v])))"
  using assms by (simp add: append_arg_def andthen_def)

lemma holds_list_iff:
  "(case v of Some (PList xs) \<Rightarrow> True | _ \<Rightarrow> False) \<longleftrightarrow> (\<exists>xs. v = Some (PList xs))"
proof (cases v)
  case None
  then show ?thesis by simp
next
  case (Some a)
  then show ?thesis by (cases a) simp_all
qed

lemma lists_at_iff: "lists_at fs md \<longleftrightarrow> (\<forall>f\<in>set fs. \<exists>xs. md f = Some (PList xs))"
  by (simp add: lists_at_def list_all_iff holds_list_iff)

lemma lists_at_update: "lists_at fs md \<Longrightarrow> lists_at fs (md(k \<mapsto> PList xs))"
  by (simp add: lists_at_iff)

lemma append_arg_lists:
  assumes "lists_at fs md" and "k \<in> set fs"
  shows "\<exists>md'. append_arg k (Inr v) md = Inr md' \<and> lists_at fs md'"
proof -
  obtain xs where "md k = Some (PList xs)"
    using assms by (auto simp: lists_at_iff)
  then show ?thesis
    using append_arg_returns[of md k xs v] lists_at_update[OF assms(1)] by simp
qed

subsubsection \<open>The lists the personnel block starts from\<close>

lemma fold_update_apply:
  "fold (\<lambda>x m. m(g x \<mapsto> v)) xs m f = (if f \<in> g ` set xs then Some v else m f)"
  by (induction xs arbitrary: m) auto

lemma fold_fold_update_apply:
  "fold (\<lambda>y m. fold (\<lambda>x m'. m'(g y x \<mapsto> v)) xs m) ys m0 f =
     (if \<exists>y\<in>set ys. f \<in> g y ` set xs then Some v else m0 f)"
  by (induction ys arbitrary: m0) (auto simp: fold_update_apply)

lemma init_personnel_apply:
  "init_personnel md f =
     (if f \<in> set personnel_families then Some (PList []) else md f)"
proof -
  have "init_personnel md f =
      (if \<exists>rc\<in>set personnel_role_LUT. f \<in> family (snd rc) ` set personnel_subfields
       then Some (PList [])
       else (md(''personnel_role'' \<mapsto> PList [], ''personnel_name'' \<mapsto> PList [],
                ''personnel_organisation'' \<mapsto> PList [])) f)"
    unfolding init_personnel_def
    by (rule fold_fold_update_apply[where g = "\<lambda>rc sub. family (snd rc) sub"])
  then show ?thesis
    by (auto simp: personnel_families_def role_codes_def)
qed

lemma init_personnel_lists: "lists_at personnel_families (init_personnel md)"
  by (simp add: lists_at_iff init_personnel_apply)

lemma init_personnel_flen: "f \<in> set personnel_families \<Longrightarrow> flen (init_personnel md) f = 0"
  by (simp add: flen_def init_personnel_apply)

subsubsection \<open>The names of the families\<close>

lemma role_codes_cases:
  "code \<in> set role_codes \<longleftrightarrow>
     code = ''investigator'' \<or> code = ''technical'' \<or> code = ''metadata_author'' \<or> code = ''datacenter''"
  by (auto simp: role_codes_def personnel_role_LUT_def)

lemma family_inject:
  assumes "c \<in> set role_codes" and "c' \<in> set role_codes"
  shows "family c x = family c' y \<longleftrightarrow> c = c' \<and> x = y"
  using assms unfolding role_codes_cases family_def by auto

lemma family_not_facet:
  assumes "c \<in> set role_codes"
  shows "family c x \<noteq> ''personnel_role''" "family c x \<noteq> ''personnel_name''"
    "family c x \<noteq> ''personnel_organisation''"
  using assms unfolding role_codes_cases family_def by auto

lemma family_in_families:
  "code \<in> set role_codes \<Longrightarrow> sub \<in> set personnel_subfields \<Longrightarrow>
   family code sub \<in> set personnel_families"
  by (auto simp: personnel_families_def)

lemma role_of_code: "role_of p = Some code \<Longrightarrow> code \<in> set role_codes"
  by (auto simp: role_of_def role_codes_def split: sum.splits pyval.splits dest: map_of_SomeD
      intro: rev_image_eqI)

lemma role_of_step:
  assumes "role_of p = Some code"
  shows "\<exists>r d. p = PDict d \<and> py_getitem p ''mmd:role'' = Inr (PStr r) \<and> truthy (PStr r)
           \<and> role_code (PStr r) = Inr (Some code)"
proof -
  obtain r where r: "py_getitem p ''mmd:role'' = Inr (PStr r)" "map_of personnel_role_LUT r = Some code"
    using assms by (auto simp: role_of_def split: sum.splits pyval.splits)
  then have "r \<noteq> []"
    by (auto simp: personnel_role_LUT_def split: if_splits)
  moreover obtain d where "p = PDict d"
    using r(1) by (cases p) auto
  ultimately show ?thesis
    using r by (simp add: role_code_def)
qed

subsubsection \<open>What the loops of the personnel block append\<close>

lemma andthen_InrD: "andthen m f = Inr y \<Longrightarrow> \<exists>x. m = Inr x \<and> f x = Inr y"
  by (cases m) (simp_all add: andthen_def)

lemma andthen_Inr [simp]: "andthen (Inr x) f = f x"
  by (simp add: andthen_def)

lemma andthen_Inl [simp]: "andthen (Inl e) f = Inl e"
  by (simp add: andthen_def)

lemma address_element_PStr:
  "address_element code ca (PStr k) md =
     append_arg (family code (address_part k)) (py_getitem ca k) md"
  by (simp add: address_element_def address_part_def Let_def)

lemma address_elements_dict_flen:
  "address_elements code ca (map (\<lambda>kv. PStr (fst kv)) d') md = Inr md' \<Longrightarrow>
   flen md' f = flen md f + count_list (map (\<lambda>kv. family code (address_part (fst kv))) d') f"
proof (induction d' arbitrary: md)
  case Nil
  then show ?case by simp
next
  case (Cons kv d')
  from Cons.prems obtain m1 where
    m1: "append_arg (family code (address_part (fst kv))) (py_getitem ca (fst kv)) md = Inr m1"
      "address_elements code ca (map (\<lambda>kv. PStr (fst kv)) d') m1 = Inr md'"
    by (auto simp: address_element_PStr dest: andthen_InrD)
  show ?case
    using append_arg_flen[OF m1(1), of f] Cons.IH[OF m1(2)] by simp
qed

lemma address_elements_nondict:
  assumes "\<forall>d. ca \<noteq> PDict d" and "els \<noteq> []"
  shows "\<exists>e. address_elements code ca els md = Inl e"
proof -
  obtain el rest where els: "els = el # rest"
    using assms(2) by (cases els) auto
  have nd: "py_getitem ca k = Inl TypeError" for k
    using assms(1) by (cases ca) auto
  have "\<exists>e. address_element code ca el md = Inl e"
  proof (cases el)
    case (PStr k)
    show ?thesis
    proof (cases "address_element code ca el md")
      case (Inr m1)
      then show ?thesis
        using append_arg_InrD[of "family code (address_part k)" "py_getitem ca k" md m1] PStr nd
        by (simp add: address_element_PStr)
    qed simp
  qed (simp_all add: address_element_def)
  then show ?thesis
    using els by auto
qed

lemma contact_address_flen:
  assumes "andthen (getitem d k) (\<lambda>ca. andthen (py_iter ca) (\<lambda>els. address_elements code ca els md)) = Inr md'"
  shows "flen md' f = flen md f
           + count_list (map (family code) (case getitem d k of Inr ca \<Rightarrow> address_subfields ca | Inl _ \<Rightarrow> [])) f"
proof -
  obtain ca els where ca: "getitem d k = Inr ca" "py_iter ca = Inr els"
    "address_elements code ca els md = Inr md'"
    using assms by (auto dest!: andthen_InrD)
  show ?thesis
  proof (cases "\<exists>a. ca = PDict a")
    case True
    then obtain a where a: "ca = PDict a" by blast
    then have "els = map (\<lambda>kv. PStr (fst kv)) a"
      using ca(2) by simp
    then show ?thesis
      using address_elements_dict_flen[of code ca a md md' f] ca a
      by (simp add: address_subfields_def comp_def)
  next
    case False
    then have "els = []"
      using address_elements_nondict[of ca els code md] ca(3) by auto
    moreover have "address_subfields ca = []"
      using False by (cases ca) (simp_all add: address_subfields_def)
    ultimately show ?thesis
      using ca by simp
  qed
qed

lemma two_appends_flen:
  assumes "andthen (append_arg a arg md) (append_arg b arg) = Inr md'"
  shows "flen md' f = flen md f + count_list [a, b] f"
proof -
  obtain m1 where "append_arg a arg md = Inr m1" "append_arg b arg m1 = Inr md'"
    using assms by (auto dest: andthen_InrD)
  then show ?thesis
    using append_arg_flen[of a arg md m1 f] append_arg_flen[of b arg m1 md' f] by auto
qed

lemma personnel_entry_flen:
  assumes "personnel_entry code d k md = Inr md'"
  shows "flen md' f = flen md f + count_list (entry_targets code d k) f"
proof -
  consider (role) "last_part k = ''role''"
    | (address) "last_part k = ''contact_address''"
    | (name) "last_part k = ''name''"
    | (organisation) "last_part k = ''organisation''"
    | (other) "last_part k \<noteq> ''role''" "last_part k \<noteq> ''contact_address''"
        "last_part k \<noteq> ''name''" "last_part k \<noteq> ''organisation''"
    by blast
  then show ?thesis
  proof cases
    case role
    then show ?thesis
      using assms two_appends_flen[of "family code ''role''" "getitem d k" md "''personnel_role''" md' f]
      by (auto simp: personnel_entry_def entry_targets_def Let_def)
  next
    case address
    then show ?thesis
      using assms contact_address_flen[of d k code md md' f]
      by (auto simp: personnel_entry_def entry_targets_def entry_subfields_def Let_def)
  next
    case name
    then show ?thesis
      using assms two_appends_flen[of "family code ''name''" "getitem d k" md "''personnel_name''" md' f]
      by (auto simp: personnel_entry_def entry_targets_def Let_def)
  next
    case organisation
    then show ?thesis
      using assms
        two_appends_flen[of "family code ''organisation''" "getitem d k" md "''personnel_organisation''" md' f]
      by (auto simp: personnel_entry_def entry_targets_def Let_def)
  next
    case other
    then show ?thesis
      using assms append_arg_flen[of "family code (last_part k)" "getitem d k" md md' f]
      by (auto simp: personnel_entry_def entry_targets_def Let_def)
  qed
qed

lemma personnel_entries_flen:
  "personnel_entries code d ks md = Inr md' \<Longrightarrow>
   flen md' f = flen md f + count_list (concat (map (entry_targets code d) ks)) f"
proof (induction ks arbitrary: md)
  case Nil
  then show ?case by simp
next
  case (Cons k ks)
  from Cons.prems obtain m1 where
    m1: "personnel_entry code d k md = Inr m1" "personnel_entries code d ks m1 = Inr md'"
    by (auto dest: andthen_InrD)
  show ?case
    using personnel_entry_flen[OF m1(1), of f] Cons.IH[OF m1(2)] by simp
qed

lemma personnel_loop_flen:
  assumes "\<forall>p\<in>set ps. role_of p \<noteq> None" and "personnel_loop ps lg md = (lg', Inr md')"
  shows "flen md' f = flen md f + sum_list (map (\<lambda>p. count_list (element_targets p) f) ps)"
  using assms
proof (induction ps arbitrary: md)
  case Nil
  then show ?case by simp
next
  case (Cons p ps)
  then obtain code where code: "role_of p = Some code" by auto
  from role_of_step[OF code] obtain r d where
    p: "p = PDict d" "py_getitem p ''mmd:role'' = Inr (PStr r)" "truthy (PStr r)"
      "role_code (PStr r) = Inr (Some code)"
    by blast
  obtain m1 where
    m1: "personnel_entries code d (map fst d) md = Inr m1" "personnel_loop ps lg m1 = (lg', Inr md')"
    using Cons.prems(2) p(2,3,4) unfolding p(1)
    by (auto split: sum.splits)
  have "flen m1 f = flen md f + count_list (element_targets p) f"
    using personnel_entries_flen[OF m1(1), of f] code p(1) by (simp add: element_targets_def)
  moreover have "flen md' f = flen m1 f + sum_list (map (\<lambda>p. count_list (element_targets p) f) ps)"
    using Cons.IH[OF _ m1(2)] Cons.prems(1) by simp
  ultimately show ?case by simp
qed

subsubsection \<open>From the fields appended to, to the sub-fields carried\<close>

lemma count_list_concat:
  "count_list (concat xss) x = sum_list (map (\<lambda>xs. count_list xs x) xss)"
  by (induction xss) simp_all

lemma count_map_family:
  assumes "code \<in> set role_codes" and "c \<in> set role_codes"
  shows "count_list (map (family code) xs) (family c sub) = (if c = code then count_list xs sub else 0)"
  using family_inject[OF assms] by (induction xs) auto

lemma count_map_family_facet:
  assumes "code \<in> set role_codes"
  shows "count_list (map (family code) xs) ''personnel_role'' = 0"
    "count_list (map (family code) xs) ''personnel_name'' = 0"
    "count_list (map (family code) xs) ''personnel_organisation'' = 0"
  using family_not_facet[OF assms] by (induction xs) auto

lemma address_part_not_facet:
  "address_part k \<noteq> ''role''" "address_part k \<noteq> ''name''" "address_part k \<noteq> ''organisation''"
  by (simp_all add: address_part_def)

lemma address_subfields_set: "set (address_subfields ca) \<subseteq> range address_part"
  by (cases ca) (auto simp: address_subfields_def)

lemma address_subfields_not_facet:
  "count_list (address_subfields ca) ''role'' = 0"
  "count_list (address_subfields ca) ''name'' = 0"
  "count_list (address_subfields ca) ''organisation'' = 0"
proof -
  have "''role'' \<notin> range address_part" "''name'' \<notin> range address_part"
    "''organisation'' \<notin> range address_part"
    using address_part_not_facet by (metis rangeE)+
  then show "count_list (address_subfields ca) ''role'' = 0"
    "count_list (address_subfields ca) ''name'' = 0"
    "count_list (address_subfields ca) ''organisation'' = 0"
    using address_subfields_set[of ca] by (auto simp: count_list_0_iff)
qed

lemma entry_targets_family:
  assumes "code \<in> set role_codes" and "c \<in> set role_codes"
  shows "count_list (entry_targets code d k) (family c sub) =
           (if c = code then count_list (entry_subfields d k) sub else 0)"
proof -
  note fi = family_inject[OF assms]
  note nf = family_not_facet[OF assms(2), symmetric] family_not_facet[OF assms(1), symmetric]
  consider (role) "last_part k = ''role''"
    | (address) "last_part k = ''contact_address''"
    | (name) "last_part k = ''name''"
    | (organisation) "last_part k = ''organisation''"
    | (other) "last_part k \<noteq> ''role''" "last_part k \<noteq> ''contact_address''"
        "last_part k \<noteq> ''name''" "last_part k \<noteq> ''organisation''"
    by blast
  then show ?thesis
  proof cases
    case role
    then show ?thesis
      by (auto simp: entry_targets_def entry_subfields_def fi nf)
  next
    case address
    then show ?thesis
      by (simp add: entry_targets_def entry_subfields_def count_map_family[OF assms])
  next
    case name
    then show ?thesis
      by (auto simp: entry_targets_def entry_subfields_def fi nf)
  next
    case organisation
    then show ?thesis
      by (auto simp: entry_targets_def entry_subfields_def fi nf)
  next
    case other
    then show ?thesis
      by (auto simp: entry_targets_def entry_subfields_def fi)
  qed
qed

lemma entry_subfields_facet_address:
  assumes "last_part k = ''contact_address''"
  shows "count_list (entry_subfields d k) ''role'' = 0"
    "count_list (entry_subfields d k) ''name'' = 0"
    "count_list (entry_subfields d k) ''organisation'' = 0"
  using assms address_subfields_not_facet
  by (auto simp: entry_subfields_def split: sum.splits)

lemma entry_targets_facet:
  assumes "code \<in> set role_codes"
  shows "count_list (entry_targets code d k) ''personnel_role'' = count_list (entry_subfields d k) ''role''"
    and "count_list (entry_targets code d k) ''personnel_name'' = count_list (entry_subfields d k) ''name''"
    and "count_list (entry_targets code d k) ''personnel_organisation'' =
           count_list (entry_subfields d k) ''organisation''"
proof -
  note nf = family_not_facet[OF assms] count_map_family_facet[OF assms]
  consider (role) "last_part k = ''role''"
    | (address) "last_part k = ''contact_address''"
    | (name) "last_part k = ''name''"
    | (organisation) "last_part k = ''organisation''"
    | (other) "last_part k \<noteq> ''role''" "last_part k \<noteq> ''contact_address''"
        "last_part k \<noteq> ''name''" "last_part k \<noteq> ''organisation''"
    by blast
  then have "count_list (entry_targets code d k) ''personnel_role'' = count_list (entry_subfields d k) ''role''
    \<and> count_list (entry_targets code d k) ''personnel_name'' = count_list (entry_subfields d k) ''name''
    \<and> count_list (entry_targets code d k) ''personnel_organisation'' =
           count_list (entry_subfields d k) ''organisation''"
  proof cases
    case role
    then show ?thesis
      by (simp add: entry_targets_def entry_subfields_def nf)
  next
    case address
    then show ?thesis
      using entry_subfields_facet_address[OF address, of d]
      by (simp add: entry_targets_def nf)
  next
    case name
    then show ?thesis
      by (simp add: entry_targets_def entry_subfields_def nf)
  next
    case organisation
    then show ?thesis
      by (simp add: entry_targets_def entry_subfields_def nf)
  next
    case other
    then show ?thesis
      by (simp add: entry_targets_def entry_subfields_def nf)
  qed
  then show "count_list (entry_targets code d k) ''personnel_role'' = count_list (entry_subfields d k) ''role''"
    and "count_list (entry_targets code d k) ''personnel_name'' = count_list (entry_subfields d k) ''name''"
    and "count_list (entry_targets code d k) ''personnel_organisation'' =
           count_list (entry_subfields d k) ''organisation''"
    by simp_all
qed

lemma element_targets_family:
  assumes "role_of p \<noteq> None" and "c \<in> set role_codes"
  shows "count_list (element_targets p) (family c sub) =
           (if role_of p = Some c then occurrences p sub else 0)"
proof -
  obtain code where code: "role_of p = Some code" using assms(1) by auto
  obtain d where d: "p = PDict d" using role_of_step[OF code] by blast
  have "count_list (concat (map (entry_targets code d) ks)) (family c sub) =
          (if c = code then count_list (concat (map (entry_subfields d) ks)) sub else 0)" for ks
    using entry_targets_family[OF role_of_code[OF code] assms(2)]
    by (induction ks) auto
  from this[of "map fst d"] show ?thesis
    using code d by (auto simp: element_targets_def occurrences_def subfields_def simp del: map_map)
qed

lemma element_targets_facet:
  assumes "role_of p \<noteq> None"
  shows "count_list (element_targets p) ''personnel_role'' = occurrences p ''role''"
    and "count_list (element_targets p) ''personnel_name'' = occurrences p ''name''"
    and "count_list (element_targets p) ''personnel_organisation'' = occurrences p ''organisation''"
proof -
  obtain code where code: "role_of p = Some code" using assms(1) by auto
  obtain d where d: "p = PDict d" using role_of_step[OF code] by blast
  note et = entry_targets_facet[OF role_of_code[OF code]]
  have "count_list (concat (map (entry_targets code d) ks)) ''personnel_role'' =
          count_list (concat (map (entry_subfields d) ks)) ''role''" for ks
    using et(1) by (induction ks) auto
  from this[of "map fst d"]
  show "count_list (element_targets p) ''personnel_role'' = occurrences p ''role''"
    using code d by (simp add: element_targets_def occurrences_def subfields_def del: map_map)
  have "count_list (concat (map (entry_targets code d) ks)) ''personnel_name'' =
          count_list (concat (map (entry_subfields d) ks)) ''name''" for ks
    using et(2) by (induction ks) auto
  from this[of "map fst d"]
  show "count_list (element_targets p) ''personnel_name'' = occurrences p ''name''"
    using code d by (simp add: element_targets_def occurrences_def subfields_def del: map_map)
  have "count_list (concat (map (entry_targets code d) ks)) ''personnel_organisation'' =
          count_list (concat (map (entry_subfields d) ks)) ''organisation''" for ks
    using et(3) by (induction ks) auto
  from this[of "map fst d"]
  show "count_list (element_targets p) ''personnel_organisation'' = occurrences p ''organisation''"
    using code d by (simp add: element_targets_def occurrences_def subfields_def del: map_map)
qed

lemma sum_list_with_role:
  "sum_list (map (\<lambda>p. if role_of p = Some c then g p else 0) ps) = sum_list (map g (with_role c ps))"
  by (induction ps) (simp_all add: with_role_def)

text \<open>
  The length of every family after the personnel block, for elements that all have a
  role of the table.
\<close>

lemma tosolr_personnel_flen:
  assumes "getitem mmd ''mmd:personnel'' = Inr v" and "one_or_many v = Inr ps"
    and "\<forall>p\<in>set ps. role_of p \<noteq> None"
    and "tosolr_personnel mmd lg md = (lg', Inr md')"
  shows "flen md' ''personnel_role'' = sum_list (map (\<lambda>p. occurrences p ''role'') ps)"
    and "flen md' ''personnel_name'' = sum_list (map (\<lambda>p. occurrences p ''name'') ps)"
    and "flen md' ''personnel_organisation'' = sum_list (map (\<lambda>p. occurrences p ''organisation'') ps)"
    and "code \<in> set role_codes \<Longrightarrow> sub \<in> set personnel_subfields \<Longrightarrow>
         flen md' (family code sub) = sum_list (map (\<lambda>p. occurrences p sub) (with_role code ps))"
proof -
  have loop: "personnel_loop ps lg (init_personnel md) = (lg', Inr md')"
    using assms(1,2,4) getitem_has_key[OF assms(1)] by (simp add: tosolr_personnel_def)
  note len = personnel_loop_flen[OF assms(3) loop]
  have facet: "''personnel_role'' \<in> set personnel_families" "''personnel_name'' \<in> set personnel_families"
    "''personnel_organisation'' \<in> set personnel_families"
    by (simp_all add: personnel_families_def)
  show "flen md' ''personnel_role'' = sum_list (map (\<lambda>p. occurrences p ''role'') ps)"
    using len[of "''personnel_role''"] init_personnel_flen[OF facet(1)] assms(3)
    by (simp add: element_targets_facet(1) cong: map_cong)
  show "flen md' ''personnel_name'' = sum_list (map (\<lambda>p. occurrences p ''name'') ps)"
    using len[of "''personnel_name''"] init_personnel_flen[OF facet(2)] assms(3)
    by (simp add: element_targets_facet(2) cong: map_cong)
  show "flen md' ''personnel_organisation'' = sum_list (map (\<lambda>p. occurrences p ''organisation'') ps)"
    using len[of "''personnel_organisation''"] init_personnel_flen[OF facet(3)] assms(3)
    by (simp add: element_targets_facet(3) cong: map_cong)
  show "flen md' (family code sub) = sum_list (map (\<lambda>p. occurrences p sub) (with_role code ps))"
    if "code \<in> set role_codes" "sub \<in> set personnel_subfields"
  proof -
    have "sum_list (map (\<lambda>p. count_list (element_targets p) (family code sub)) ps) =
          sum_list (map (\<lambda>p. if role_of p = Some code then occurrences p sub else 0) ps)"
      using assms(3) element_targets_family[OF _ that(1)] by (simp cong: map_cong)
    then show ?thesis
      using len[of "family code sub"] init_personnel_flen[OF family_in_families[OF that]]
      by (simp add: sum_list_with_role)
  qed
qed

subsubsection \<open>When the personnel block returns\<close>

lemma getitem_key: "k \<in> fst ` set d \<Longrightarrow> \<exists>v. getitem d k = Inr v"
  by (cases "map_of d k") (auto simp: getitem_def map_of_eq_None_iff)

lemma address_elements_lists:
  assumes "lists_at fs md"
    and "\<forall>kv\<in>set d'. family code (address_part (fst kv)) \<in> set fs \<and> fst kv \<in> fst ` set ca"
  shows "\<exists>md'. address_elements code (PDict ca) (map (\<lambda>kv. PStr (fst kv)) d') md = Inr md'
           \<and> lists_at fs md'"
  using assms
proof (induction d' arbitrary: md)
  case Nil
  then show ?case by simp
next
  case (Cons kv d')
  obtain v where v: "getitem ca (fst kv) = Inr v"
    using Cons.prems(2) getitem_key[of "fst kv" ca] by auto
  obtain m1 where m1: "append_arg (family code (address_part (fst kv))) (Inr v) md = Inr m1"
    "lists_at fs m1"
    using append_arg_lists[OF Cons.prems(1), of "family code (address_part (fst kv))" v] Cons.prems(2)
    by auto
  obtain md' where "address_elements code (PDict ca) (map (\<lambda>kv. PStr (fst kv)) d') m1 = Inr md'"
    "lists_at fs md'"
    using Cons.IH[OF m1(2)] Cons.prems(2) by auto
  then show ?case
    using v m1(1) by (simp add: address_element_PStr)
qed

lemma two_appends_lists:
  assumes "lists_at fs md" and "a \<in> set fs" and "b \<in> set fs"
  shows "\<exists>md'. andthen (append_arg a (Inr v) md) (append_arg b (Inr v)) = Inr md' \<and> lists_at fs md'"
proof -
  obtain m1 where m1: "append_arg a (Inr v) md = Inr m1" "lists_at fs m1"
    using append_arg_lists[OF assms(1,2)] by blast
  then show ?thesis
    using append_arg_lists[OF m1(2) assms(3), of v] by simp
qed

lemma personnel_entry_lists:
  assumes "lists_at fs md" and "set (entry_targets code d k) \<subseteq> set fs"
    and "k \<in> fst ` set d" and "address_is_dict d k"
  shows "\<exists>md'. personnel_entry code d k md = Inr md' \<and> lists_at fs md'"
proof -
  obtain v where v: "getitem d k = Inr v"
    using getitem_key[OF assms(3)] by blast
  consider (role) "last_part k = ''role''"
    | (address) "last_part k = ''contact_address''"
    | (name) "last_part k = ''name''"
    | (organisation) "last_part k = ''organisation''"
    | (other) "last_part k \<noteq> ''role''" "last_part k \<noteq> ''contact_address''"
        "last_part k \<noteq> ''name''" "last_part k \<noteq> ''organisation''"
    by blast
  then show ?thesis
  proof cases
    case role
    then show ?thesis
      using assms(2) two_appends_lists[OF assms(1), of "family code ''role''" "''personnel_role''" v] v
      by (simp add: personnel_entry_def entry_targets_def Let_def)
  next
    case address
    then obtain ca where ca: "v = PDict ca"
      using assms(4) v by (auto simp: address_is_dict_def split: pyval.splits)
    have "\<forall>kv\<in>set ca. family code (address_part (fst kv)) \<in> set fs \<and> fst kv \<in> fst ` set ca"
      using assms(2) address v ca
      by (auto simp: entry_targets_def entry_subfields_def address_subfields_def)
    from address_elements_lists[OF assms(1) this]
    show ?thesis
      using address v ca by (simp add: personnel_entry_def Let_def)
  next
    case name
    then show ?thesis
      using assms(2) two_appends_lists[OF assms(1), of "family code ''name''" "''personnel_name''" v] v
      by (simp add: personnel_entry_def entry_targets_def Let_def)
  next
    case organisation
    then show ?thesis
      using assms(2)
        two_appends_lists[OF assms(1), of "family code ''organisation''" "''personnel_organisation''" v] v
      by (simp add: personnel_entry_def entry_targets_def Let_def)
  next
    case other
    then show ?thesis
      using assms(2) append_arg_lists[OF assms(1), of "family code (last_part k)" v] v
      by (simp add: personnel_entry_def entry_targets_def Let_def)
  qed
qed

lemma personnel_entries_lists:
  assumes "lists_at fs md"
    and "\<forall>k\<in>set ks. set (entry_targets code d k) \<subseteq> set fs \<and> k \<in> fst ` set d \<and> address_is_dict d k"
  shows "\<exists>md'. personnel_entries code d ks md = Inr md' \<and> lists_at fs md'"
  using assms
proof (induction ks arbitrary: md)
  case Nil
  then show ?case by simp
next
  case (Cons k ks)
  obtain m1 where m1: "personnel_entry code d k md = Inr m1" "lists_at fs m1"
    using personnel_entry_lists[OF Cons.prems(1), of code d k] Cons.prems(2) by auto
  show ?case
    using Cons.IH[OF m1(2)] Cons.prems(2) m1(1) by simp
qed

lemma entry_targets_known:
  assumes "code \<in> set role_codes" and "set (entry_subfields d k) \<subseteq> set personnel_subfields"
  shows "set (entry_targets code d k) \<subseteq> set personnel_families"
proof -
  have fam: "family code sub \<in> set personnel_families" if "sub \<in> set personnel_subfields" for sub
    using family_in_families[OF assms(1) that] .
  have facet: "''personnel_role'' \<in> set personnel_families" "''personnel_name'' \<in> set personnel_families"
    "''personnel_organisation'' \<in> set personnel_families"
    by (simp_all add: personnel_families_def)
  have known: "''role'' \<in> set personnel_subfields" "''name'' \<in> set personnel_subfields"
    "''organisation'' \<in> set personnel_subfields"
    by (simp_all add: personnel_subfields_def)
  consider (role) "last_part k = ''role''"
    | (address) "last_part k = ''contact_address''"
    | (name) "last_part k = ''name''"
    | (organisation) "last_part k = ''organisation''"
    | (other) "last_part k \<noteq> ''role''" "last_part k \<noteq> ''contact_address''"
        "last_part k \<noteq> ''name''" "last_part k \<noteq> ''organisation''"
    by blast
  then show ?thesis
  proof cases
    case role
    then show ?thesis using fam[OF known(1)] facet by (simp add: entry_targets_def)
  next
    case address
    then show ?thesis using assms(2) fam by (auto simp: entry_targets_def)
  next
    case name
    then show ?thesis using fam[OF known(2)] facet by (simp add: entry_targets_def)
  next
    case organisation
    then show ?thesis using fam[OF known(3)] facet by (simp add: entry_targets_def)
  next
    case other
    then show ?thesis using assms(2) fam by (auto simp: entry_targets_def entry_subfields_def)
  qed
qed

text \<open>
  On well-formed personnel elements the loop returns, without a warning, and the
  fields it started with still hold lists.
\<close>

lemma personnel_loop_returns:
  assumes "\<forall>p\<in>set ps. well_formed_personnel p" and "lists_at personnel_families md"
  shows "\<exists>md'. personnel_loop ps lg md = (lg, Inr md')"
  using assms
proof (induction ps arbitrary: md)
  case Nil
  then show ?case by simp
next
  case (Cons p ps)
  then have wf: "well_formed_personnel p" by simp
  then obtain code where code: "role_of p = Some code"
    by (auto simp: well_formed_personnel_def)
  from role_of_step[OF code] obtain r d where
    p: "p = PDict d" "py_getitem p ''mmd:role'' = Inr (PStr r)" "truthy (PStr r)"
      "role_code (PStr r) = Inr (Some code)"
    by blast
  have sub: "set (concat (map (entry_subfields d) (map fst d))) \<subseteq> set personnel_subfields"
    and addr: "\<forall>k\<in>set (map fst d). address_is_dict d k"
    using wf p(1) by (auto simp: well_formed_personnel_def subfields_def list_all_iff)
  have "\<forall>k\<in>set (map fst d). set (entry_targets code d k) \<subseteq> set personnel_families
      \<and> k \<in> fst ` set d \<and> address_is_dict d k"
  proof
    fix k assume k: "k \<in> set (map fst d)"
    then have "set (entry_subfields d k) \<subseteq> set personnel_subfields"
      using sub by auto
    then show "set (entry_targets code d k) \<subseteq> set personnel_families
      \<and> k \<in> fst ` set d \<and> address_is_dict d k"
      using entry_targets_known[OF role_of_code[OF code]] k addr by auto
  qed
  from personnel_entries_lists[OF Cons.prems(2) this]
  obtain m1 where m1: "personnel_entries code d (map fst d) md = Inr m1"
    "lists_at personnel_families m1"
    by blast
  obtain md' where "personnel_loop ps lg m1 = (lg, Inr md')"
    using Cons.IH[OF _ m1(2)] Cons.prems(1) by auto
  then show ?case
    using m1(1) p(2,3,4) unfolding p(1) by simp
qed

lemma tosolr_personnel_returns:
  assumes "getitem mmd ''mmd:personnel'' = Inr v" and "one_or_many v = Inr ps"
    and "\<forall>p\<in>set ps. well_formed_personnel p"
  shows "\<exists>md'. tosolr_personnel mmd lg md = (lg, Inr md')"
  using personnel_loop_returns[OF assms(3) init_personnel_lists, of lg md] assms(1,2)
    getitem_has_key[OF assms(1)]
  by (simp add: tosolr_personnel_def)

subsubsection \<open>Data centers and platforms\<close>

lemma flatten_element_flen:
  assumes "flatten_element n v md = Inr md'"
  shows "flen md' f = flen md f + (if f = n then 1 else 0)"
proof (cases "md n")
  case None
  then show ?thesis
    using assms by (auto simp: flatten_element_def flen_def)
next
  case (Some l)
  show ?thesis
  proof (cases l)
    case (PList xs)
    then show ?thesis
      using assms Some by (auto simp: flatten_element_def flen_def)
  qed (use assms Some in \<open>simp_all add: flatten_element_def\<close>)
qed

lemma flatten_items_flen:
  "flatten_items nm kvs md = Inr md' \<Longrightarrow>
   flen md' f = flen md f + count_list (map (\<lambda>kv. nm (fst kv)) kvs) f"
proof (induction kvs arbitrary: md)
  case Nil
  then show ?case by simp
next
  case (Cons kv kvs)
  from Cons.prems obtain m1 where
    m1: "flatten_element (nm (fst kv)) (snd kv) md = Inr m1" "flatten_items nm kvs m1 = Inr md'"
    by (auto dest: andthen_InrD)
  show ?case
    using flatten_element_flen[OF m1(1), of f] Cons.IH[OF m1(2)] by simp
qed

lemma data_center_items_flen:
  "data_center_items d md = Inr md' \<Longrightarrow>
   flen md' f = flen md f + count_list (data_center_fields (PDict d)) f"
proof (induction d arbitrary: md)
  case Nil
  then show ?case by (simp add: data_center_fields_def)
next
  case (Cons kv d)
  from Cons.prems obtain m1 where
    m1: "(case snd kv of
            PDict sub \<Rightarrow> flatten_items (\<lambda>kkey. ''data_center_'' @ last_part kkey) sub md
          | _ \<Rightarrow> flatten_element (last_part (fst kv)) (snd kv) md) = Inr m1"
      "data_center_items d m1 = Inr md'"
    by (auto dest: andthen_InrD)
  have "flen m1 f = flen md f
      + count_list (case snd kv of
                      PDict sub \<Rightarrow> map (\<lambda>kv'. ''data_center_'' @ last_part (fst kv')) sub
                    | _ \<Rightarrow> [last_part (fst kv)]) f"
    using m1(1) flatten_items_flen[of "\<lambda>kkey. ''data_center_'' @ last_part kkey" _ md m1 f]
      flatten_element_flen[of "last_part (fst kv)" "snd kv" md m1 f]
    by (cases "snd kv") auto
  then show ?case
    using Cons.IH[OF m1(2)] by (simp add: data_center_fields_def)
qed

lemma data_centers_flen:
  "data_centers dcs md = Inr md' \<Longrightarrow>
   flen md' f = flen md f + sum_list (map (\<lambda>dc. count_list (data_center_fields dc) f) dcs)"
proof (induction dcs arbitrary: md)
  case Nil
  then show ?case by simp
next
  case (Cons dc dcs)
  then obtain d where d: "dc = PDict d"
    by (cases dc) auto
  from Cons.prems obtain m1 where
    m1: "data_center_items d md = Inr m1" "data_centers dcs m1 = Inr md'"
    unfolding d by (auto dest: andthen_InrD)
  show ?case
    using data_center_items_flen[OF m1(1), of f] Cons.IH[OF m1(2)] d by simp
qed

lemma tosolr_data_center_flen:
  assumes "getitem mmd ''mmd:data_center'' = Inr w" and "one_or_many w = Inr dcs"
    and "tosolr_data_center mmd md = Inr md'"
  shows "flen md' f = flen md f + sum_list (map (\<lambda>dc. count_list (data_center_fields dc) f) dcs)"
proof -
  have "data_centers dcs md = Inr md'"
    using assms getitem_has_key[OF assms(1)] by (simp add: tosolr_data_center_def)
  then show ?thesis
    by (rule data_centers_flen)
qed

lemma platform_items_flen:
  "platform_items d md = Inr md' \<Longrightarrow>
   flen md' f = flen md f + count_list (platform_fields (PDict d)) f"
proof (induction d arbitrary: md)
  case Nil
  then show ?case by (simp add: platform_fields_def)
next
  case (Cons kv d)
  from Cons.prems obtain m1 where
    m1: "(case snd kv of
            PDict sub \<Rightarrow>
              flatten_items (\<lambda>kkey. ''platform_'' @ last_part (fst kv) @ ''_'' @ last_part kkey) sub md
          | _ \<Rightarrow> flatten_element (''platform_'' @ last_part (fst kv)) (snd kv) md) = Inr m1"
      "platform_items d m1 = Inr md'"
    by (auto dest: andthen_InrD)
  have "flen m1 f = flen md f
      + count_list (case snd kv of
                      PDict sub \<Rightarrow>
                        map (\<lambda>kv'. ''platform_'' @ last_part (fst kv) @ ''_'' @ last_part (fst kv')) sub
                    | _ \<Rightarrow> [''platform_'' @ last_part (fst kv)]) f"
    using m1(1)
      flatten_items_flen[of "\<lambda>kkey. ''platform_'' @ last_part (fst kv) @ ''_'' @ last_part kkey" _ md m1 f]
      flatten_element_flen[of "''platform_'' @ last_part (fst kv)" "snd kv" md m1 f]
    by (cases "snd kv") auto
  then show ?case
    using Cons.IH[OF m1(2)] by (simp add: platform_fields_def)
qed

lemma platform_sentinel_flen:
  assumes "platform_sentinel md = Inr md'" and "f \<noteq> ''platform_sentinel''"
  shows "flen md' f = flen md f"
proof -
  have "md' = md \<or> (\<exists>s. md' = md(''platform_sentinel'' \<mapsto> PStr s))"
    using assms(1)
    by (auto simp: platform_sentinel_def split: option.splits pyval.splits if_splits dest!: andthen_InrD)
  then show ?thesis
    using assms(2) by (auto simp: flen_def)
qed

lemma platforms_flen:
  assumes "f \<noteq> ''platform_sentinel''"
  shows "platforms pfs md = Inr md' \<Longrightarrow>
   flen md' f = flen md f + sum_list (map (\<lambda>pf. count_list (platform_fields pf) f) pfs)"
proof (induction pfs arbitrary: md)
  case Nil
  then show ?case by simp
next
  case (Cons pf pfs)
  then obtain d where d: "pf = PDict d"
    by (cases pf) auto
  from Cons.prems obtain m1 m2 where
    m: "platform_items d md = Inr m1" "platform_sentinel m1 = Inr m2" "platforms pfs m2 = Inr md'"
    unfolding d by (auto dest!: andthen_InrD)
  show ?case
    using platform_items_flen[OF m(1), of f] platform_sentinel_flen[OF m(2) assms] Cons.IH[OF m(3)] d
    by simp
qed

lemma tosolr_platform_flen:
  assumes "getitem mmd ''mmd:platform'' = Inr u" and "one_or_many u = Inr pfs"
    and "tosolr_platform mmd md = Inr md'" and "f \<noteq> ''platform_sentinel''"
  shows "flen md' f = flen md f + sum_list (map (\<lambda>pf. count_list (platform_fields pf) f) pfs)"
proof -
  have "platforms pfs md = Inr md'"
    using assms getitem_has_key[OF assms(1)] by (simp add: tosolr_platform_def)
  then show ?thesis
    by (rule platforms_flen[OF assms(4)])
qed

lemma sum_list_all_one:
  "\<forall>x\<in>set xs. g x = (1::nat) \<Longrightarrow> sum_list (map g xs) = length xs"
  by (induction xs) simp_all

lemma sum_list_cong_eq:
  "\<forall>x\<in>set xs. g x = (h x :: nat) \<Longrightarrow> sum_list (map g xs) = sum_list (map h xs)"
  by (induction xs) simp_all

subsubsection \<open>The example record\<close>

lemma demo_persons_well_formed: "\<forall>p\<in>set demo_persons. well_formed_personnel p"
  by (simp add: demo_persons_def well_formed_personnel_def role_of_def getitem_def
      personnel_role_LUT_def address_is_dict_def last_part_def subfields_def entry_subfields_def
      personnel_subfields_def)

lemma demo_persons_role: "\<forall>p\<in>set demo_persons. role_of p \<noteq> None"
  using demo_persons_well_formed by (simp add: well_formed_personnel_def)

lemma demo_persons_investigators: "with_role ''investigator'' demo_persons = demo_persons"
  by (simp add: with_role_def demo_persons_def role_of_def getitem_def personnel_role_LUT_def)

lemma demo_persons_occurrences:
  "map (\<lambda>p. occurrences p ''role'') demo_persons = [1, 1]"
  "map (\<lambda>p. occurrences p ''name'') demo_persons = [1, 1]"
  "map (\<lambda>p. occurrences p ''email'') demo_persons = [1, 0]"
  "map (\<lambda>p. occurrences p ''phone'') demo_persons = [0, 0]"
  by (simp_all add: demo_persons_def occurrences_def subfields_def entry_subfields_def last_part_def)

lemma demo_personnel_input:
  "getitem demo_groups ''mmd:personnel'' = Inr (PList demo_persons)"
  "one_or_many (PList demo_persons) = Inr demo_persons"
  "getitem demo_personnel ''mmd:personnel'' = Inr (PList demo_persons)"
  by (simp_all add: demo_groups_def demo_personnel_def getitem_def one_or_many_def)

lemma demo_codes:
  "''investigator'' \<in> set role_codes"
  "''role'' \<in> set personnel_subfields" "''name'' \<in> set personnel_subfields"
  "''email'' \<in> set personnel_subfields" "''phone'' \<in> set personnel_subfields"
  by (simp_all add: role_codes_def personnel_role_LUT_def personnel_subfields_def)

lemma demo_family_names:
  "family ''investigator'' ''role'' = ''personnel_investigator_role''"
  "family ''investigator'' ''name'' = ''personnel_investigator_name''"
  "family ''investigator'' ''email'' = ''personnel_investigator_email''"
  "family ''investigator'' ''phone'' = ''personnel_investigator_phone''"
  by (simp_all add: family_def)

lemma demo_personnel_lengths:
  "family_length ''personnel_investigator_role'' (tosolr_personnel demo_personnel [] Map.empty) = Some 2"
  "family_length ''personnel_investigator_name'' (tosolr_personnel demo_personnel [] Map.empty) = Some 2"
  "family_length ''personnel_investigator_email'' (tosolr_personnel demo_personnel [] Map.empty) = Some 1"
  "family_length ''personnel_investigator_phone'' (tosolr_personnel demo_personnel [] Map.empty) = Some 0"
  "family_length ''personnel_name'' (tosolr_personnel demo_personnel [] Map.empty) = Some 2"
proof -
  obtain md' where run: "tosolr_personnel demo_personnel [] Map.empty = ([], Inr md')"
    using tosolr_personnel_returns[OF demo_personnel_input(3,2) demo_persons_well_formed] by blast
  note len = tosolr_personnel_flen[OF demo_personnel_input(3,2) demo_persons_role run]
  show "family_length ''personnel_investigator_role'' (tosolr_personnel demo_personnel [] Map.empty) = Some 2"
    using len(4)[OF demo_codes(1,2)]
    by (simp add: family_length_def run demo_persons_investigators demo_persons_occurrences
        demo_family_names)
  show "family_length ''personnel_investigator_name'' (tosolr_personnel demo_personnel [] Map.empty) = Some 2"
    using len(4)[OF demo_codes(1,3)]
    by (simp add: family_length_def run demo_persons_investigators demo_persons_occurrences
        demo_family_names)
  show "family_length ''personnel_investigator_email'' (tosolr_personnel demo_personnel [] Map.empty) = Some 1"
    using len(4)[OF demo_codes(1,4)]
    by (simp add: family_length_def run demo_persons_investigators demo_persons_occurrences
        demo_family_names)
  show "family_length ''personnel_investigator_phone'' (tosolr_personnel demo_personnel [] Map.empty) = Some 0"
    using len(4)[OF demo_codes(1,5)]
    by (simp add: family_length_def run demo_persons_investigators demo_persons_occurrences
        demo_family_names)
  show "family_length ''personnel_name'' (tosolr_personnel demo_personnel [] Map.empty) = Some 2"
    using len(2)
    by (simp add: family_length_def run demo_persons_occurrences)
qed

lemma demo_data_center:
  "tosolr_data_center demo_groups Map.empty =
     Inr [''data_center_short_name'' \<mapsto> PList [PStr ''NPI'', PStr ''MET''],
          ''data_center_long_name'' \<mapsto>
            PList [PStr ''Norwegian Polar Institute'', PStr ''Norwegian Meteorological Institute''],
          ''data_center_url'' \<mapsto> PList [PStr ''https://npolar.no'', PStr ''https://met.no'']]"
  by (simp add: tosolr_data_center_def demo_groups_def demo_centers_def has_key_def getitem_def
      one_or_many_def flatten_element_def last_part_def)

lemma demo_platform_block:
  "tosolr_platform demo_groups Map.empty =
     Inr [''platform_short_name'' \<mapsto> PList [PStr ''S1A''],
          ''platform_long_name'' \<mapsto> PList [PStr ''Sentinel-1A''],
          ''platform_instrument_short_name'' \<mapsto> PList [PStr ''SAR''],
          ''platform_instrument_long_name'' \<mapsto> PList [PStr ''Synthetic Aperture Radar''],
          ''platform_sentinel'' \<mapsto> PStr ''Sentinel-1'']"
  by (simp add: tosolr_platform_def demo_groups_def demo_platform_def has_key_def getitem_def
      one_or_many_def flatten_element_def last_part_def platform_sentinel_def)

subsubsection \<open>The personnel loop when a role is not of the table\<close>

lemma role_code_role_of:
  assumes "py_getitem p ''mmd:role'' = Inr role" and "role_code role = Inr (Some code)"
  shows "role_of p = Some code"
  using assms by (auto simp: role_of_def role_code_def split: if_splits pyval.splits)

lemma reached_Cons:
  "role_of p = None \<Longrightarrow> reached (p # ps) = []"
  "role_of p = Some c \<Longrightarrow> reached (p # ps) = p # reached ps"
  by (simp_all add: reached_def)

lemma reached_role: "p \<in> set (reached ps) \<Longrightarrow> role_of p \<noteq> None"
  unfolding reached_def by (drule set_takeWhileD) simp

lemma with_role_reached: "set (with_role code (reached ps)) \<subseteq> set (with_role code ps)"
  by (auto simp: with_role_def reached_def dest: set_takeWhileD)

text \<open>
  Whenever the loop returns, it has appended what the elements it got through carry,
  and nothing else.
\<close>

lemma personnel_loop_reached_flen:
  assumes "personnel_loop ps lg md = (lg', Inr md')"
  shows "flen md' f = flen md f + sum_list (map (\<lambda>p. count_list (element_targets p) f) (reached ps))"
  using assms
proof (induction ps arbitrary: md)
  case Nil
  then show ?case by (simp add: reached_def)
next
  case (Cons p ps)
  show ?case
  proof (cases "role_of p")
    case None
    obtain role where role: "py_getitem p ''mmd:role'' = Inr role"
      using Cons.prems by (cases "py_getitem p ''mmd:role''") auto
    have "md' = md"
    proof (cases "truthy role")
      case False
      then show ?thesis using Cons.prems role by simp
    next
      case True
      then obtain c where c: "role_code role = Inr c"
        using Cons.prems role by (cases "role_code role") auto
      have "c = None"
        using role_code_role_of[OF role] c None by (cases c) auto
      then show ?thesis using Cons.prems role True c by simp
    qed
    then show ?thesis using None by (simp add: reached_Cons)
  next
    case (Some code)
    from role_of_step[OF Some] obtain r d where
      p: "p = PDict d" "py_getitem p ''mmd:role'' = Inr (PStr r)" "truthy (PStr r)"
        "role_code (PStr r) = Inr (Some code)"
      by blast
    obtain m1 where
      m1: "personnel_entries code d (map fst d) md = Inr m1" "personnel_loop ps lg m1 = (lg', Inr md')"
      using Cons.prems p(2,3,4) unfolding p(1)
      by (auto split: sum.splits)
    have "flen m1 f = flen md f + count_list (element_targets p) f"
      using personnel_entries_flen[OF m1(1), of f] Some p(1) by (simp add: element_targets_def)
    moreover have "flen md' f = flen m1 f + sum_list (map (\<lambda>p. count_list (element_targets p) f) (reached ps))"
      using Cons.IH[OF m1(2)] .
    ultimately show ?thesis using Some by (simp add: reached_Cons)
  qed
qed

lemma personnel_reached_flen:
  assumes "getitem mmd ''mmd:personnel'' = Inr v" and "one_or_many v = Inr ps"
    and "tosolr_personnel mmd lg md = (lg', Inr md')"
    and "code \<in> set role_codes" and "sub \<in> set personnel_subfields"
  shows "flen md' (family code sub) = sum_list (map (\<lambda>p. occurrences p sub) (with_role code (reached ps)))"
proof -
  have loop: "personnel_loop ps lg (init_personnel md) = (lg', Inr md')"
    using assms(1,2,3) getitem_has_key[OF assms(1)] by (simp add: tosolr_personnel_def)
  have "sum_list (map (\<lambda>p. count_list (element_targets p) (family code sub)) (reached ps)) =
        sum_list (map (\<lambda>p. if role_of p = Some code then occurrences p sub else 0) (reached ps))"
    using reached_role element_targets_family[OF _ assms(4)] by (simp cong: map_cong)
  then show ?thesis
    using personnel_loop_reached_flen[OF loop, of "family code sub"]
      init_personnel_flen[OF family_in_families[OF assms(4,5)]]
    by (simp add: sum_list_with_role)
qed

text \<open>
  The loop gets through well-formed elements without a warning and goes on with what
  follows them.
\<close>

lemma personnel_loop_append:
  assumes "\<forall>p\<in>set ps. well_formed_personnel p" and "lists_at personnel_families md"
  shows "\<exists>m1. lists_at personnel_families m1
           \<and> (\<forall>rest. personnel_loop (ps @ rest) lg md = personnel_loop rest lg m1)"
  using assms
proof (induction ps arbitrary: md)
  case Nil
  then show ?case by auto
next
  case (Cons p ps)
  then have wf: "well_formed_personnel p" by simp
  then obtain code where code: "role_of p = Some code"
    by (auto simp: well_formed_personnel_def)
  from role_of_step[OF code] obtain r d where
    p: "p = PDict d" "py_getitem p ''mmd:role'' = Inr (PStr r)" "truthy (PStr r)"
      "role_code (PStr r) = Inr (Some code)"
    by blast
  have sub: "set (concat (map (entry_subfields d) (map fst d))) \<subseteq> set personnel_subfields"
    and addr: "\<forall>k\<in>set (map fst d). address_is_dict d k"
    using wf p(1) by (auto simp: well_formed_personnel_def subfields_def list_all_iff)
  have "\<forall>k\<in>set (map fst d). set (entry_targets code d k) \<subseteq> set personnel_families
      \<and> k \<in> fst ` set d \<and> address_is_dict d k"
  proof
    fix k assume k: "k \<in> set (map fst d)"
    then have "set (entry_subfields d k) \<subseteq> set personnel_subfields"
      using sub by auto
    then show "set (entry_targets code d k) \<subseteq> set personnel_families
      \<and> k \<in> fst ` set d \<and> address_is_dict d k"
      using entry_targets_known[OF role_of_code[OF code]] k addr by auto
  qed
  from personnel_entries_lists[OF Cons.prems(2) this]
  obtain m1 where m1: "personnel_entries code d (map fst d) md = Inr m1"
    "lists_at personnel_families m1"
    by blast
  obtain m2 where m2: "lists_at personnel_families m2"
    "\<forall>rest. personnel_loop (ps @ rest) lg m1 = personnel_loop rest lg m2"
    using Cons.IH[OF _ m1(2)] Cons.prems(1) by auto
  have "personnel_loop ((p # ps) @ rest) lg md = personnel_loop rest lg m2" for rest
    using m1(1) m2(2) p(2,3,4) unfolding p(1) by simp
  then show ?case
    using m2(1) by blast
qed

lemma demo_break_input:
  "getitem demo_personnel_break ''mmd:personnel'' = Inr (PList demo_persons_break)"
  "one_or_many (PList demo_persons_break) = Inr demo_persons_break"
  by (simp_all add: demo_personnel_break_def getitem_def one_or_many_def)

lemma demo_break_run:
  "\<exists>md'. tosolr_personnel demo_personnel_break [] Map.empty =
           ([(WARNING, ''Wrong role provided for personnel'')], Inr md')"
proof -
  let ?ada = "PDict [(''mmd:role'', PStr ''Investigator''), (''mmd:name'', PStr ''Ada''),
             (''mmd:email'', PStr ''ada@example.org'')]"
  let ?rest = "[PDict [(''mmd:role'', PStr ''Boss''), (''mmd:name'', PStr ''Eve'')],
      PDict [(''mmd:role'', PStr ''Investigator''), (''mmd:name'', PStr ''Bob'')]]"
  have "\<forall>p\<in>set [?ada]. well_formed_personnel p"
    using demo_persons_well_formed by (simp add: demo_persons_def)
  from personnel_loop_append[OF this init_personnel_lists, of "[]" Map.empty]
  obtain m1 where m1: "personnel_loop ([?ada] @ ?rest) [] (init_personnel Map.empty) =
      personnel_loop ?rest [] m1"
    by blast
  have "personnel_loop ?rest [] m1 = ([(WARNING, ''Wrong role provided for personnel'')], Inr m1)"
    by (simp add: getitem_def role_code_def personnel_role_LUT_def)
  then show ?thesis
    using m1 demo_break_input getitem_has_key[OF demo_break_input(1)]
    by (simp add: tosolr_personnel_def demo_persons_break_def)
qed

lemma demo_break_reached:
  "with_role ''investigator'' (reached demo_persons_break) = [demo_persons_break ! 0]"
  "with_role ''investigator'' demo_persons_break = [demo_persons_break ! 0, demo_persons_break ! 2]"
  by (simp_all add: with_role_def reached_def demo_persons_break_def role_of_def getitem_def
      personnel_role_LUT_def)

lemma demo_break_occurrences:
  "map (\<lambda>p. occurrences p ''role'') demo_persons_break = [1, 1, 1]"
  "map (\<lambda>p. occurrences p ''name'') demo_persons_break = [1, 1, 1]"
  by (simp_all add: demo_persons_break_def occurrences_def subfields_def entry_subfields_def last_part_def)

subsubsection \<open>The two claims on the flattened families\<close>

text \<open>
  C1, as the claim states it: of two investigators one has no e-mail address, and the
  family of the names has two elements while the family of the e-mail addresses has
  one. No placeholder stands for the address that is absent.
\<close>

theorem sibling_families_differ:
  "family_length ''personnel_investigator_name'' (tosolr_personnel demo_personnel [] Map.empty) = Some 2
   \<and> family_length ''personnel_investigator_email'' (tosolr_personnel demo_personnel [] Map.empty) = Some 1"
  using demo_personnel_lengths(2,3) by simp

text \<open>
  C1, amended. No placeholder stands for a value that is absent: whenever a block
  returns, a family has one element for each value carried, and two families are as
  long as each other whenever every instance carries as many values for the one as for
  the other. For the personnel of a record, whatever their roles, the family of a role
  of the table and one of its eleven sub-fields has one element for each value that the
  elements of the role carry for the sub-field, among the elements the loop gets
  through (those before the first without a role of the table); two such families of a
  role have the same length whenever every element of the role carries as many values
  for the one sub-field as for the other. For the data centers a field gains one
  element for each value the data centers carry for it, and two fields as long as each
  other before the block are so after it whenever every data center carries as many
  values for the one as for the other; likewise for the platforms, the sentinel field
  apart.
\<close>

theorem sibling_families_equal:
  "(getitem mmd ''mmd:personnel'' = Inr v \<and> one_or_many v = Inr ps
      \<and> tosolr_personnel mmd lg md = (lg', Inr md1)
      \<and> code \<in> set role_codes \<and> sub \<in> set personnel_subfields \<and> sub' \<in> set personnel_subfields
    \<longrightarrow> flen md1 (family code sub) =
          sum_list (map (\<lambda>p. occurrences p sub) (with_role code (reached ps)))
        \<and> ((\<forall>p\<in>set (with_role code ps). occurrences p sub = occurrences p sub')
            \<longrightarrow> flen md1 (family code sub) = flen md1 (family code sub')))
   \<and> (getitem mmd ''mmd:data_center'' = Inr w \<and> one_or_many w = Inr dcs
      \<and> tosolr_data_center mmd md = Inr md2
    \<longrightarrow> flen md2 f = flen md f + sum_list (map (\<lambda>dc. count_list (data_center_fields dc) f) dcs)
        \<and> (flen md f = flen md f'
            \<and> (\<forall>dc\<in>set dcs. count_list (data_center_fields dc) f = count_list (data_center_fields dc) f')
            \<longrightarrow> flen md2 f = flen md2 f'))
   \<and> (getitem mmd ''mmd:platform'' = Inr u \<and> one_or_many u = Inr pfs
      \<and> tosolr_platform mmd md = Inr md3
      \<and> f \<noteq> ''platform_sentinel'' \<and> f' \<noteq> ''platform_sentinel''
    \<longrightarrow> flen md3 f = flen md f + sum_list (map (\<lambda>pf. count_list (platform_fields pf) f) pfs)
        \<and> (flen md f = flen md f'
            \<and> (\<forall>pf\<in>set pfs. count_list (platform_fields pf) f = count_list (platform_fields pf) f')
            \<longrightarrow> flen md3 f = flen md3 f'))"
proof (intro conjI impI)
  assume a: "getitem mmd ''mmd:personnel'' = Inr v \<and> one_or_many v = Inr ps
      \<and> tosolr_personnel mmd lg md = (lg', Inr md1)
      \<and> code \<in> set role_codes \<and> sub \<in> set personnel_subfields \<and> sub' \<in> set personnel_subfields"
  then have len: "flen md1 (family code s) =
      sum_list (map (\<lambda>p. occurrences p s) (with_role code (reached ps)))"
    if "s \<in> set personnel_subfields" for s
    using personnel_reached_flen[of mmd v ps lg md lg' md1 code s] that by blast
  show "flen md1 (family code sub) =
      sum_list (map (\<lambda>p. occurrences p sub) (with_role code (reached ps)))"
    using len a by blast
  assume same: "\<forall>p\<in>set (with_role code ps). occurrences p sub = occurrences p sub'"
  have "sum_list (map (\<lambda>p. occurrences p sub) (with_role code (reached ps))) =
        sum_list (map (\<lambda>p. occurrences p sub') (with_role code (reached ps)))"
    using same with_role_reached[of code ps] by (intro sum_list_cong_eq) blast
  then show "flen md1 (family code sub) = flen md1 (family code sub')"
    using len a by simp
next
  assume a: "getitem mmd ''mmd:data_center'' = Inr w \<and> one_or_many w = Inr dcs
      \<and> tosolr_data_center mmd md = Inr md2"
  then have len: "flen md2 g = flen md g + sum_list (map (\<lambda>dc. count_list (data_center_fields dc) g) dcs)"
    for g
    using tosolr_data_center_flen[of mmd w dcs md md2 g] by blast
  show "flen md2 f = flen md f + sum_list (map (\<lambda>dc. count_list (data_center_fields dc) f) dcs)"
    by (rule len)
  assume same: "flen md f = flen md f'
      \<and> (\<forall>dc\<in>set dcs. count_list (data_center_fields dc) f = count_list (data_center_fields dc) f')"
  have "sum_list (map (\<lambda>dc. count_list (data_center_fields dc) f) dcs) =
        sum_list (map (\<lambda>dc. count_list (data_center_fields dc) f') dcs)"
    using same by (intro sum_list_cong_eq) blast
  then show "flen md2 f = flen md2 f'"
    using len same by simp
next
  assume a: "getitem mmd ''mmd:platform'' = Inr u \<and> one_or_many u = Inr pfs
      \<and> tosolr_platform mmd md = Inr md3
      \<and> f \<noteq> ''platform_sentinel'' \<and> f' \<noteq> ''platform_sentinel''"
  then have len: "flen md3 g = flen md g + sum_list (map (\<lambda>pf. count_list (platform_fields pf) g) pfs)"
    if "g \<noteq> ''platform_sentinel''" for g
    using tosolr_platform_flen[of mmd u pfs md md3 g] that by blast
  show "flen md3 f = flen md f + sum_list (map (\<lambda>pf. count_list (platform_fields pf) f) pfs)"
    using len a by blast
  assume same: "flen md f = flen md f'
      \<and> (\<forall>pf\<in>set pfs. count_list (platform_fields pf) f = count_list (platform_fields pf) f')"
  have "sum_list (map (\<lambda>pf. count_list (platform_fields pf) f) pfs) =
        sum_list (map (\<lambda>pf. count_list (platform_fields pf) f') pfs)"
    using same by (intro sum_list_cong_eq) blast
  then show "flen md3 f = flen md3 f'"
    using len a same by simp
qed

theorem sibling_families_equal_witness:
  "(\<exists>md1. tosolr_personnel demo_personnel_break [] Map.empty =
             ([(WARNING, ''Wrong role provided for personnel'')], Inr md1)
       \<and> flen md1 ''personnel_investigator_name'' = 1
       \<and> flen md1 ''personnel_investigator_role'' = flen md1 ''personnel_investigator_name'')
   \<and> (\<exists>md2. tosolr_data_center demo_groups Map.empty = Inr md2
       \<and> flen md2 ''data_center_short_name'' = 2
       \<and> flen md2 ''data_center_short_name'' = flen md2 ''data_center_long_name'')
   \<and> (\<exists>md3. tosolr_platform demo_groups Map.empty = Inr md3
       \<and> flen md3 ''platform_short_name'' = 1
       \<and> flen md3 ''platform_short_name'' = flen md3 ''platform_long_name'')"
proof (intro conjI)
  obtain md1 where run: "tosolr_personnel demo_personnel_break [] Map.empty =
      ([(WARNING, ''Wrong role provided for personnel'')], Inr md1)"
    using demo_break_run by blast
  have same: "\<forall>p\<in>set (with_role ''investigator'' demo_persons_break).
      occurrences p ''role'' = occurrences p ''name''"
    unfolding demo_break_reached
    by (simp add: demo_persons_break_def occurrences_def subfields_def entry_subfields_def last_part_def)
  note names = sibling_families_equal[where mmd = demo_personnel_break and v = "PList demo_persons_break"
        and ps = demo_persons_break and lg = "[]" and md = Map.empty
        and lg' = "[(WARNING, ''Wrong role provided for personnel'')]" and ?md1.0 = md1
        and code = "''investigator''" and sub = "''name''" and sub' = "''name''", THEN conjunct1]
  note roles = sibling_families_equal[where mmd = demo_personnel_break and v = "PList demo_persons_break"
        and ps = demo_persons_break and lg = "[]" and md = Map.empty
        and lg' = "[(WARNING, ''Wrong role provided for personnel'')]" and ?md1.0 = md1
        and code = "''investigator''" and sub = "''role''" and sub' = "''name''", THEN conjunct1]
  have "flen md1 (family ''investigator'' ''name'') =
      sum_list (map (\<lambda>p. occurrences p ''name'') (with_role ''investigator'' (reached demo_persons_break)))"
    using names demo_break_input run demo_codes(1,3)
    by blast
  then have one: "flen md1 (family ''investigator'' ''name'') = 1"
    unfolding demo_break_reached
    by (simp add: demo_persons_break_def occurrences_def subfields_def entry_subfields_def last_part_def)
  have "flen md1 (family ''investigator'' ''role'') = flen md1 (family ''investigator'' ''name'')"
    using roles demo_break_input run demo_codes(1,2,3) same
    by blast
  then show "\<exists>md1. tosolr_personnel demo_personnel_break [] Map.empty =
             ([(WARNING, ''Wrong role provided for personnel'')], Inr md1)
       \<and> flen md1 ''personnel_investigator_name'' = 1
       \<and> flen md1 ''personnel_investigator_role'' = flen md1 ''personnel_investigator_name''"
    using run one by (simp add: demo_family_names)
next
  let ?md2 = "[''data_center_short_name'' \<mapsto> PList [PStr ''NPI'', PStr ''MET''],
          ''data_center_long_name'' \<mapsto>
            PList [PStr ''Norwegian Polar Institute'', PStr ''Norwegian Meteorological Institute''],
          ''data_center_url'' \<mapsto> PList [PStr ''https://npolar.no'', PStr ''https://met.no'']]"
  have inp: "getitem demo_groups ''mmd:data_center'' = Inr (PList demo_centers)"
    "one_or_many (PList demo_centers) = Inr demo_centers"
    by (simp_all add: demo_groups_def getitem_def one_or_many_def)
  have same: "\<forall>dc\<in>set demo_centers. count_list (data_center_fields dc) ''data_center_short_name'' =
      count_list (data_center_fields dc) ''data_center_long_name''"
    by (simp add: demo_centers_def data_center_fields_def last_part_def)
  note sfe = sibling_families_equal[where mmd = demo_groups and w = "PList demo_centers"
        and dcs = demo_centers and md = Map.empty and ?md2.0 = ?md2
        and f = "''data_center_short_name''" and f' = "''data_center_long_name''",
        THEN conjunct2, THEN conjunct1]
  have "flen ?md2 ''data_center_short_name'' = flen ?md2 ''data_center_long_name''"
    using sfe inp demo_data_center same
    by (simp add: flen_def)
  moreover have "flen ?md2 ''data_center_short_name'' = 2"
    by (simp add: flen_def)
  ultimately show "\<exists>md2. tosolr_data_center demo_groups Map.empty = Inr md2
       \<and> flen md2 ''data_center_short_name'' = 2
       \<and> flen md2 ''data_center_short_name'' = flen md2 ''data_center_long_name''"
    using demo_data_center by blast
next
  let ?md3 = "[''platform_short_name'' \<mapsto> PList [PStr ''S1A''],
          ''platform_long_name'' \<mapsto> PList [PStr ''Sentinel-1A''],
          ''platform_instrument_short_name'' \<mapsto> PList [PStr ''SAR''],
          ''platform_instrument_long_name'' \<mapsto> PList [PStr ''Synthetic Aperture Radar''],
          ''platform_sentinel'' \<mapsto> PStr ''Sentinel-1'']"
  have inp: "getitem demo_groups ''mmd:platform'' = Inr demo_platform"
    "one_or_many demo_platform = Inr [demo_platform]"
    by (simp_all add: demo_groups_def getitem_def one_or_many_def demo_platform_def)
  have same: "\<forall>pf\<in>set [demo_platform]. count_list (platform_fields pf) ''platform_short_name'' =
      count_list (platform_fields pf) ''platform_long_name''"
    by (simp add: demo_platform_def platform_fields_def last_part_def)
  note sfe = sibling_families_equal[where mmd = demo_groups and u = demo_platform
        and pfs = "[demo_platform]" and md = Map.empty and ?md3.0 = ?md3
        and f = "''platform_short_name''" and f' = "''platform_long_name''",
        THEN conjunct2, THEN conjunct2]
  have "flen ?md3 ''platform_short_name'' = flen ?md3 ''platform_long_name''"
    using sfe inp demo_platform_block same
    by (simp add: flen_def)
  moreover have "flen ?md3 ''platform_short_name'' = 1"
    by (simp add: flen_def)
  ultimately show "\<exists>md3. tosolr_platform demo_groups Map.empty = Inr md3
       \<and> flen md3 ''platform_short_name'' = 1
       \<and> flen md3 ''platform_short_name'' = flen md3 ''platform_long_name''"
    using demo_platform_block by blast
qed

text \<open>
  C3, as the claim states it: the record has two investigators, neither with a phone
  number, and the family of the investigators' phone numbers is empty.
\<close>

theorem family_shorter_than_role:
  "family_length ''personnel_investigator_phone'' (tosolr_personnel demo_personnel [] Map.empty) = Some 0
   \<and> length (with_role ''investigator'' demo_persons) = 2"
  using demo_personnel_lengths(4) by (simp add: demo_persons_investigators) (simp add: demo_persons_def)

text \<open>
  C3, amended. Let all personnel elements of a record have a role of the table. If
  they are well formed the block returns. Whenever it returns, \<open>personnel_role\<close> has one
  element for each role the elements carry and \<open>personnel_name\<close> one for each name, so
  exactly as many as there are elements when each carries one; and the family of a
  role and a sub-field has one element for each value the elements of that role carry
  for the sub-field, so exactly as many as there are elements of the role when each
  carries one.
\<close>

theorem personnel_cardinality:
  assumes "getitem mmd ''mmd:personnel'' = Inr v" and "one_or_many v = Inr ps"
    and "\<forall>p\<in>set ps. role_of p \<noteq> None"
  shows "((\<forall>p\<in>set ps. well_formed_personnel p) \<longrightarrow>
            (\<exists>md'. tosolr_personnel mmd lg md = (lg, Inr md')))
    \<and> (\<forall>lg' md'. tosolr_personnel mmd lg md = (lg', Inr md') \<longrightarrow>
          flen md' ''personnel_role'' = sum_list (map (\<lambda>p. occurrences p ''role'') ps)
        \<and> flen md' ''personnel_name'' = sum_list (map (\<lambda>p. occurrences p ''name'') ps)
        \<and> ((\<forall>p\<in>set ps. occurrences p ''role'' = 1) \<longrightarrow> flen md' ''personnel_role'' = length ps)
        \<and> ((\<forall>p\<in>set ps. occurrences p ''name'' = 1) \<longrightarrow> flen md' ''personnel_name'' = length ps)
        \<and> (\<forall>code\<in>set role_codes. \<forall>sub\<in>set personnel_subfields.
             flen md' (family code sub) = sum_list (map (\<lambda>p. occurrences p sub) (with_role code ps))
           \<and> ((\<forall>p\<in>set (with_role code ps). occurrences p sub = 1) \<longrightarrow>
                flen md' (family code sub) = length (with_role code ps))))"
proof (intro conjI allI impI ballI)
  assume "\<forall>p\<in>set ps. well_formed_personnel p"
  then show "\<exists>md'. tosolr_personnel mmd lg md = (lg, Inr md')"
    using tosolr_personnel_returns[OF assms(1,2)] by blast
next
  fix lg' md'
  assume run: "tosolr_personnel mmd lg md = (lg', Inr md')"
  note len = tosolr_personnel_flen[OF assms run]
  show "flen md' ''personnel_role'' = sum_list (map (\<lambda>p. occurrences p ''role'') ps)"
    by (rule len(1))
  show "flen md' ''personnel_name'' = sum_list (map (\<lambda>p. occurrences p ''name'') ps)"
    by (rule len(2))
  show "flen md' ''personnel_role'' = length ps" if "\<forall>p\<in>set ps. occurrences p ''role'' = 1"
    using len(1) sum_list_all_one[OF that] by simp
  show "flen md' ''personnel_name'' = length ps" if "\<forall>p\<in>set ps. occurrences p ''name'' = 1"
    using len(2) sum_list_all_one[OF that] by simp
  show "flen md' (family code sub) = sum_list (map (\<lambda>p. occurrences p sub) (with_role code ps))"
    if "code \<in> set role_codes" "sub \<in> set personnel_subfields" for code sub
    using len(4)[OF that] .
  show "flen md' (family code sub) = length (with_role code ps)"
    if "code \<in> set role_codes" "sub \<in> set personnel_subfields"
      "\<forall>p\<in>set (with_role code ps). occurrences p sub = 1" for code sub
    using len(4)[OF that(1,2)] sum_list_all_one[OF that(3)] by simp
qed

theorem personnel_cardinality_witness:
  "\<exists>md'. tosolr_personnel demo_personnel [] Map.empty = ([], Inr md')
     \<and> flen md' ''personnel_role'' = 2 \<and> flen md' ''personnel_name'' = 2
     \<and> flen md' ''personnel_investigator_name'' = 2 \<and> flen md' ''personnel_investigator_email'' = 1"
proof -
  note pc = personnel_cardinality[OF demo_personnel_input(3,2) demo_persons_role, of "[]" Map.empty]
  obtain md' where run: "tosolr_personnel demo_personnel [] Map.empty = ([], Inr md')"
    using pc demo_persons_well_formed by blast
  have all: "flen md' ''personnel_role'' = sum_list (map (\<lambda>p. occurrences p ''role'') demo_persons)"
    "flen md' ''personnel_name'' = sum_list (map (\<lambda>p. occurrences p ''name'') demo_persons)"
    "\<forall>code\<in>set role_codes. \<forall>sub\<in>set personnel_subfields.
        flen md' (family code sub) = sum_list (map (\<lambda>p. occurrences p sub) (with_role code demo_persons))"
    using pc run by blast+
  have "flen md' (family ''investigator'' ''name'') = 2" "flen md' (family ''investigator'' ''email'') = 1"
    using all(3) demo_codes
    by (simp_all add: demo_persons_investigators demo_persons_occurrences)
  then show ?thesis
    using run all(1,2) by (simp add: demo_persons_occurrences demo_family_names)
qed

end
